theory Spec2Isabelle
  imports Complex_Main "HOL-Library.List_Lexorder" "HOL-Library.Char_ord"
    "HOL-Library.Multiset"
begin

section \<open>The dense neural-network classifier of tupa/classifiers/nn/neural_network.py\<close>

text \<open>
  The class \<^verbatim>\<open>NeuralNetwork\<close> is embedded as a record of its attributes and one function
  per method, each taking the object and returning the mutated object. A Python exception
  is the \<open>Inl\<close> branch of the result; the object a method had partly mutated before it
  raised is not returned.

  The tensor engine builds a symbolic computation graph, so its expressions are a datatype
  of graph nodes; its parameter handles carry the shape they were allocated with.
  Numbers that Python would hold as \<^verbatim>\<open>int\<close> or \<^verbatim>\<open>float\<close> feature values are rationals;
  counts, dimensions, axes and labels are natural numbers.

  The methods \<^verbatim>\<open>load_model\<close> and \<^verbatim>\<open>get_classifier_properties\<close> are not embedded: no property
  below depends on them.
\<close>

subsection \<open>Errors, dictionaries, engine objects\<close>

datatype error =
    AssertionError string "nat list"
  | KeyError
  | IndexError
  | TypeError
  | AttributeError
  | ValueError string
  | OSError
  | SystemExit nat

text \<open>A Python dict, in insertion order; its keys are pairwise distinct.\<close>

type_synonym 'v dict = "(string \<times> 'v) list"

text \<open>\<^verbatim>\<open>sorted(d.items())\<close>: the keys are distinct, so the items are ordered by key alone.\<close>

definition sorted_items :: "'v dict \<Rightarrow> (string \<times> 'v) list" where
  "sorted_items d = sort_key fst d"

text \<open>\<^verbatim>\<open>d[k] = v\<close> on an OrderedDict: an existing key keeps its position.\<close>

fun od_set :: "('k \<times> 'v) list \<Rightarrow> 'k \<Rightarrow> 'v \<Rightarrow> ('k \<times> 'v) list" where
  "od_set [] k v = [(k, v)]"
| "od_set ((k', v') # kvs) k v =
     (if k' = k then (k, v) # kvs else (k', v') # od_set kvs k v)"

text \<open>Keys of the parameter table: a feature suffix, or the tuple \<^verbatim>\<open>("W"|"b", i, axis)\<close>.\<close>

datatype param_key = Suffix string | Tuple string nat nat

datatype activation_fn = square | cube | tanh_fn | logistic | rectify

datatype initializer =
  GlorotInitializer | NormalInitializer | UniformInitializer nat | ConstInitializer nat

datatype trainer_kind =
  SimpleSGDTrainer | MomentumSGDTrainer | AdagradTrainer | AdadeltaTrainer | AdamTrainer

definition TRAINERS :: "string \<Rightarrow> trainer_kind option" where
  "TRAINERS = map_of
     [(''sgd'', SimpleSGDTrainer), (''momentum'', MomentumSGDTrainer),
      (''adagrad'', AdagradTrainer), (''adadelta'', AdadeltaTrainer),
      (''adam'', AdamTrainer)]"

definition INITIALIZERS :: "string \<Rightarrow> initializer option" where
  "INITIALIZERS = map_of
     [(''glorot_uniform'', GlorotInitializer), (''normal'', NormalInitializer),
      (''uniform'', UniformInitializer 1), (''const'', ConstInitializer 0)]"

definition ACTIVATIONS :: "string \<Rightarrow> activation_fn option" where
  "ACTIVATIONS = map_of
     [(''square'', square), (''cube'', cube), (''tanh'', tanh_fn),
      (''sigmoid'', logistic), (''relu'', rectify)]"

text \<open>
  A parameter handle of the engine's model: its allocation index in the model and what it
  was allocated with.
\<close>

datatype handle =
    LookupParameters nat nat nat bool "rat list list option"
  | Parameters nat "nat list" initializer

fun handle_shape :: "handle \<Rightarrow> nat list" where
  "handle_shape (LookupParameters n rows cols u a) = [rows, cols]"
| "handle_shape (Parameters n shp i) = shp"

text \<open>Nodes of the computation graph, named after the engine calls that build them.\<close>

datatype expr =
    InputVector "rat list"
  | Lookup handle rat
  | Concatenate "expr list"
  | Parameter handle
  | Dropout expr rat
  | Mul expr expr
  | Add expr expr
  | Activation activation_fn expr
  | LogSoftmax expr "nat list"
  | Pick expr nat
  | Esum "expr list"
  | Neg expr

datatype message =
    NoUpdatesYet
  | TotalLoss nat expr
  | RemovedExisting string
  | SavingModel string
  | Done
  | FailedSaving string

text \<open>What the classifier does to the engine, the file system and standard output.\<close>

datatype event =
    RenewCg
  | Forward expr
  | Backward expr
  | TrainerUpdate trainer_kind
  | TrainerUpdateEpoch trainer_kind
  | TrainerStatus trainer_kind
  | PrintGraphviz
  | Print message
  | ModelSave string "handle list"

subsection \<open>Feature parameters, configuration, the base class\<close>

text \<open>\<^verbatim>\<open>FeatureInformation\<close>, as far as this class reads it.\<close>

record feature_param =
  param_size :: nat
  param_dim :: nat
  param_numeric :: bool
  param_indexed :: bool
  param_updated :: bool
  param_num :: nat
  param_init :: "rat list list option"

type_synonym features = "rat list dict"

datatype dvalue =
    DInputParams "feature_param dict"
  | DKeys "param_key list"
  | DNat nat
  | DInt int
  | DStr string
  | DExtra string

record args =
  arg_layers :: nat
  arg_layer_dim :: nat
  arg_output_dim :: nat
  arg_activation :: string
  arg_init :: string
  arg_minibatch_size :: int
  arg_dropout :: rat
  arg_optimizer :: string
  arg_verbose :: int
  arg_dynet_viz :: bool

text \<open>
  Everything the class takes from outside this file: \<^verbatim>\<open>Config().args\<close>, the constant
  \<^verbatim>\<open>MISSING_VALUE\<close>, the base class \<^verbatim>\<open>Classifier\<close> (its property \<^verbatim>\<open>num_labels\<close>, its
  attribute \<^verbatim>\<open>filename\<close> and the methods reached through \<^verbatim>\<open>super()\<close>, all acting on the base
  part \<open>'b\<close> of the object), the engine's forward evaluation \<^verbatim>\<open>npvalue\<close>, and the outcome
  of \<^verbatim>\<open>os.remove\<close> and of the engine's \<^verbatim>\<open>model.save\<close> (\<open>None\<close>: returns, \<open>Some e\<close>: raises).
\<close>

record 'b env =
  config :: args
  MISSING_VALUE :: rat
  num_labels :: "'b \<Rightarrow> nat list"
  filename :: "'b \<Rightarrow> string"
  super_score :: "'b \<Rightarrow> features \<Rightarrow> nat \<Rightarrow> error + 'b"
  super_update :: "'b \<Rightarrow> features \<Rightarrow> nat \<Rightarrow> nat \<Rightarrow> nat \<Rightarrow> rat \<Rightarrow> error + 'b"
  super_finalize :: "'b \<Rightarrow> error + 'b"
  save_extra :: "'b \<Rightarrow> error + dvalue dict"
  npvalue :: "expr \<Rightarrow> rat list"
  os_remove :: "string \<Rightarrow> error option"
  model_save :: "string \<Rightarrow> handle list \<Rightarrow> error option"

subsection \<open>The object\<close>

record 'b neural_network =
  base :: 'b
  model :: "handle list option"
  max_num_labels :: "nat list"
  layers :: nat
  layer_dim :: nat
  output_dim :: nat
  activation_str :: string
  init_str :: string
  minibatch_size :: int
  dropout :: rat
  optimizer_str :: string
  activation :: activation_fn
  init :: initializer
  optimizer :: trainer_kind
  own_num_labels :: "nat list"
  params :: "(param_key \<times> handle) list"
  empty_values :: "expr dict"
  input_params :: "feature_param dict"
  indexed_num :: "nat option"
  indexed_dim :: "nat option"
  input_dim :: "nat option"
  losses :: "expr list"
  iteration :: nat
  trainer :: "trainer_kind option"
  cached_value :: "expr option list"
  trace :: "event list"

text \<open>\<^verbatim>\<open>__init__\<close>; \<open>b\<close> is the object as \<^verbatim>\<open>Classifier.__init__\<close> left it.\<close>

definition new_network ::
  "'b env \<Rightarrow> 'b \<Rightarrow> feature_param dict \<Rightarrow> nat list \<Rightarrow> error + 'b neural_network" where
  "new_network E b ips mx =
     (case ACTIVATIONS (arg_activation (config E)) of
        None \<Rightarrow> Inl KeyError
      | Some act \<Rightarrow>
     (case INITIALIZERS (arg_init (config E)) of
        None \<Rightarrow> Inl KeyError
      | Some ini \<Rightarrow>
     (case TRAINERS (arg_optimizer (config E)) of
        None \<Rightarrow> Inl KeyError
      | Some opt \<Rightarrow>
        Inr \<lparr> base = b, model = None, max_num_labels = mx,
              layers = arg_layers (config E), layer_dim = arg_layer_dim (config E),
              output_dim = arg_output_dim (config E),
              activation_str = arg_activation (config E), init_str = arg_init (config E),
              minibatch_size = arg_minibatch_size (config E),
              dropout = arg_dropout (config E),
              optimizer_str = arg_optimizer (config E),
              activation = act, init = ini, optimizer = opt,
              own_num_labels = num_labels E b,
              params = [], empty_values = [], input_params = ips,
              indexed_num = None, indexed_dim = None, input_dim = None,
              losses = [], iteration = 0, trainer = None,
              cached_value = replicate (length (num_labels E b)) None,
              trace = [] \<rparr>)))"

subsection \<open>Capacity check\<close>

text \<open>
  \<^verbatim>\<open>resize\<close>: the loop over \<^verbatim>\<open>enumerate(zip(self.num_labels, self.max_num_labels))\<close>;
  \<open>None\<close> for the axis checks every dimension. The object is not changed.
\<close>

fun resize_loop :: "nat option \<Rightarrow> nat \<Rightarrow> (nat \<times> nat) list \<Rightarrow> error + unit" where
  "resize_loop axis i [] = Inr ()"
| "resize_loop axis i ((l, m) # rest) =
     (if axis = None \<or> axis = Some i then
        (if l \<le> m then resize_loop axis (Suc i) rest
         else Inl (AssertionError
                ''Exceeded maximum number of labels at dimension %d: %d > %d'' [i, l, m]))
      else resize_loop axis (Suc i) rest)"

definition resize :: "'b env \<Rightarrow> nat option \<Rightarrow> 'b neural_network \<Rightarrow> error + unit" where
  "resize E axis s = resize_loop axis 0 (zip (num_labels E (base s)) (max_num_labels s))"

subsection \<open>Model initialisation\<close>

text \<open>\<^verbatim>\<open>xs[i]\<close> for a non-negative index.\<close>

definition py_nth :: "'a list \<Rightarrow> nat \<Rightarrow> error + 'a" where
  "py_nth xs i = (if i < length xs then Inr (xs ! i) else Inl IndexError)"

definition add_lookup ::
  "'b neural_network \<Rightarrow> string \<Rightarrow> feature_param \<Rightarrow> error + 'b neural_network" where
  "add_lookup s suffix param =
     (case model s of
        None \<Rightarrow> Inl AttributeError
      | Some m \<Rightarrow>
          let p = LookupParameters (length m) (param_size param) (param_dim param)
                    (param_updated param) (param_init param)
          in Inr (s\<lparr>model := Some (m @ [p]), params := od_set (params s) (Suffix suffix) p\<rparr>))"

text \<open>
  \<^verbatim>\<open>__init__\<close> assigns \<^verbatim>\<open>None\<close> to \<^verbatim>\<open>_indexed_num\<close> and \<^verbatim>\<open>_indexed_dim\<close> and does not create
  \<^verbatim>\<open>_input_dim\<close>. So \<open>None\<close> in \<open>indexed_num\<close> or \<open>indexed_dim\<close> is the value \<^verbatim>\<open>None\<close>, on which
  arithmetic raises \<^verbatim>\<open>TypeError\<close>, and \<open>None\<close> in \<open>input_dim\<close> is the missing attribute, whose
  read raises \<^verbatim>\<open>AttributeError\<close>.
\<close>

definition count_feature ::
  "'b neural_network \<Rightarrow> feature_param \<Rightarrow> error + 'b neural_network" where
  "count_feature s param =
     (if param_indexed param then
        (case indexed_dim s of
           None \<Rightarrow> Inl TypeError
         | Some d \<Rightarrow>
        (case indexed_num s of
           None \<Rightarrow> Inl TypeError
         | Some n \<Rightarrow>
             Inr (s\<lparr>indexed_dim := Some (d + param_dim param),
                    indexed_num := Some (max n (param_num param))\<rparr>)))
      else
        (case input_dim s of
           None \<Rightarrow> Inl AttributeError
         | Some d \<Rightarrow> Inr (s\<lparr>input_dim := Some (d + param_num param * param_dim param)\<rparr>)))"

fun init_input_loop ::
  "'b neural_network \<Rightarrow> (string \<times> feature_param) list \<Rightarrow> error + 'b neural_network" where
  "init_input_loop s [] = Inr s"
| "init_input_loop s ((suffix, param) # rest) =
     (if param_dim param \<noteq> 0 then
        (case (if \<not> param_numeric param then add_lookup s suffix param else Inr s) of
           Inl e \<Rightarrow> Inl e
         | Inr s1 \<Rightarrow>
        (case count_feature s1 param of
           Inl e \<Rightarrow> Inl e
         | Inr s2 \<Rightarrow> init_input_loop s2 rest))
      else init_input_loop s rest)"

definition init_indexed_input_params :: "'b neural_network \<Rightarrow> error + nat" where
  "init_indexed_input_params s =
     (case indexed_dim s of
        None \<Rightarrow> Inl TypeError
      | Some d \<Rightarrow>
     (case indexed_num s of
        None \<Rightarrow> Inl TypeError
      | Some n \<Rightarrow> Inr (d * n)))"

definition init_input_params :: "'b neural_network \<Rightarrow> error + 'b neural_network" where
  "init_input_params s =
     (case init_input_loop
             (s\<lparr>input_dim := Some 0, indexed_dim := Some 0, indexed_num := Some 0\<rparr>)
             (sorted_items (input_params s)) of
        Inl e \<Rightarrow> Inl e
      | Inr s1 \<Rightarrow>
     (case input_dim s1 of
        None \<Rightarrow> Inl AttributeError
      | Some d \<Rightarrow>
     (case init_indexed_input_params s1 of
        Inl e \<Rightarrow> Inl e
      | Inr w \<Rightarrow> Inr (s1\<lparr>input_dim := Some (d + w)\<rparr>))))"

text \<open>
  The two dimension lists of \<^verbatim>\<open>init_mlp_params\<close>. Python's \<^verbatim>\<open>n * [x]\<close> is the empty list
  for \<^verbatim>\<open>n <= 0\<close>, which is what \<open>replicate\<close> gives with the truncating \<open>layers s - 1\<close>.
\<close>

definition in_dim :: "'b neural_network \<Rightarrow> nat \<Rightarrow> nat list" where
  "in_dim s d = [d] @ replicate (layers s - 1) (layer_dim s) @ [output_dim s]"

definition out_dim :: "'b neural_network \<Rightarrow> nat \<Rightarrow> nat list" where
  "out_dim s mx = replicate (layers s - 1) (layer_dim s) @ [output_dim s, mx]"

fun mlp_layer_loop ::
  "'b neural_network \<Rightarrow> nat \<Rightarrow> nat list \<Rightarrow> nat list \<Rightarrow> nat list \<Rightarrow> error + 'b neural_network" where
  "mlp_layer_loop s axis ind outd [] = Inr s"
| "mlp_layer_loop s axis ind outd (i # is) =
     (case model s of
        None \<Rightarrow> Inl AttributeError
      | Some m \<Rightarrow>
     (case py_nth outd i of
        Inl e \<Rightarrow> Inl e
      | Inr od \<Rightarrow>
     (case py_nth ind i of
        Inl e \<Rightarrow> Inl e
      | Inr idm \<Rightarrow>
          let W = Parameters (length m) [od, idm] (init s);
              b = Parameters (Suc (length m)) [od] (init s)
          in mlp_layer_loop
               (s\<lparr>model := Some (m @ [W, b]),
                  params := od_set (od_set (params s) (Tuple ''W'' i axis) W)
                              (Tuple ''b'' i axis) b\<rparr>)
               axis ind outd is)))"

fun mlp_axis_loop :: "'b neural_network \<Rightarrow> nat list \<Rightarrow> error + 'b neural_network" where
  "mlp_axis_loop s [] = Inr s"
| "mlp_axis_loop s (axis # axes) =
     (case input_dim s of
        None \<Rightarrow> Inl AttributeError
      | Some d \<Rightarrow>
     (case py_nth (max_num_labels s) axis of
        Inl e \<Rightarrow> Inl e
      | Inr mx \<Rightarrow>
     (case mlp_layer_loop s axis (in_dim s d) (out_dim s mx) [0..<layers s + 1] of
        Inl e \<Rightarrow> Inl e
      | Inr s1 \<Rightarrow> mlp_axis_loop s1 axes)))"

definition init_mlp_params :: "'b env \<Rightarrow> 'b neural_network \<Rightarrow> error + 'b neural_network" where
  "init_mlp_params E s = mlp_axis_loop s [0..<length (num_labels E (base s))]"

definition zero_input :: "nat \<Rightarrow> expr" where
  "zero_input d = InputVector (replicate d 0)"

fun init_cg_loop :: "expr dict \<Rightarrow> (string \<times> feature_param) list \<Rightarrow> expr dict" where
  "init_cg_loop ev [] = ev"
| "init_cg_loop ev ((suffix, param) # rest) =
     init_cg_loop
       (if \<not> param_numeric param \<and> param_dim param \<noteq> 0
        then od_set ev suffix (zero_input (param_dim param)) else ev)
       rest"

definition emit :: "event list \<Rightarrow> 'b neural_network \<Rightarrow> 'b neural_network" where
  "emit evs s = s\<lparr>trace := trace s @ evs\<rparr>"

definition init_cg :: "'b neural_network \<Rightarrow> 'b neural_network" where
  "init_cg s =
     (emit [RenewCg] s)
       \<lparr>empty_values := init_cg_loop (empty_values s) (sorted_items (input_params s))\<rparr>"

definition init_model :: "'b env \<Rightarrow> 'b neural_network \<Rightarrow> error + 'b neural_network" where
  "init_model E s =
     (case init_input_params (s\<lparr>model := Some [], trainer := Some (optimizer s)\<rparr>) of
        Inl e \<Rightarrow> Inl e
      | Inr s1 \<Rightarrow>
     (case init_mlp_params E s1 of
        Inl e \<Rightarrow> Inl e
      | Inr s2 \<Rightarrow> Inr (init_cg s2)))"

subsection \<open>Input assembly\<close>

text \<open>\<^verbatim>\<open>index_input\<close> is a hook that always raises in this class.\<close>

definition index_input :: "rat list \<Rightarrow> error + expr" where
  "index_input indices =
     Inl (ValueError ''Input representations not initialized, cannot evaluate indexed features'')"

text \<open>
  The list comprehension of \<^verbatim>\<open>generate_inputs\<close> over the values of one lookup feature:
  the fallback vector for the missing marker, a row of the feature's table otherwise.
\<close>

fun lookup_values ::
  "'b env \<Rightarrow> 'b neural_network \<Rightarrow> string \<Rightarrow> rat list \<Rightarrow> error + expr list" where
  "lookup_values E s suffix [] = Inr []"
| "lookup_values E s suffix (x # xs) =
     (case (if x = MISSING_VALUE E then
              (case map_of (empty_values s) suffix of
                 None \<Rightarrow> Inl KeyError
               | Some z \<Rightarrow> Inr z)
            else
              (case map_of (params s) (Suffix suffix) of
                 None \<Rightarrow> Inl KeyError
               | Some p \<Rightarrow> Inr (Lookup p x))) of
        Inl e \<Rightarrow> Inl e
      | Inr v \<Rightarrow>
     (case lookup_values E s suffix xs of
        Inl e \<Rightarrow> Inl e
      | Inr vs \<Rightarrow> Inr (v # vs)))"

text \<open>
  The scan of \<^verbatim>\<open>generate_inputs\<close> over the sorted items: the sub-vectors yielded, in order,
  and the buffer \<^verbatim>\<open>indices\<close> as it stands after the scan.
\<close>

fun scan_features ::
  "'b env \<Rightarrow> 'b neural_network \<Rightarrow> (string \<times> rat list) list \<Rightarrow> rat list \<Rightarrow>
   error + (expr list \<times> rat list)" where
  "scan_features E s [] indices = Inr ([], indices)"
| "scan_features E s ((suffix, vals) # rest) indices =
     (case map_of (input_params s) suffix of
        None \<Rightarrow> Inl KeyError
      | Some param \<Rightarrow>
          if param_numeric param then
            (case scan_features E s rest indices of
               Inl e \<Rightarrow> Inl e
             | Inr (ys, ind) \<Rightarrow> Inr (InputVector vals # ys, ind))
          else if param_dim param \<noteq> 0 then
            (if param_indexed param then scan_features E s rest (indices @ vals)
             else
               (case lookup_values E s suffix vals of
                  Inl e \<Rightarrow> Inl e
                | Inr vs \<Rightarrow>
               (case scan_features E s rest indices of
                  Inl e \<Rightarrow> Inl e
                | Inr (ys, ind) \<Rightarrow> Inr (Concatenate vs # ys, ind))))
          else scan_features E s rest indices)"

text \<open>
  \<^verbatim>\<open>generate_inputs\<close>, run to its end as \<^verbatim>\<open>list(...)\<close> does. A failed assertion formats its
  message with \<^verbatim>\<open>%d\<close>, which raises \<^verbatim>\<open>TypeError\<close> while \<^verbatim>\<open>_indexed_num\<close> is still \<^verbatim>\<open>None\<close>.
\<close>

definition generate_inputs ::
  "'b env \<Rightarrow> 'b neural_network \<Rightarrow> features \<Rightarrow> error + expr list" where
  "generate_inputs E s feats =
     (case scan_features E s (sorted_items feats) [] of
        Inl e \<Rightarrow> Inl e
      | Inr (ys, indices) \<Rightarrow>
          if indices \<noteq> [] then
            (case indexed_num s of
               None \<Rightarrow> Inl TypeError
             | Some n \<Rightarrow>
                 if length indices = n then
                   (case index_input indices of
                      Inl e \<Rightarrow> Inl e
                    | Inr y \<Rightarrow> Inr (ys @ [y]))
                 else Inl (AssertionError ''Wrong number of index features: %d != %d''
                             [length indices, n]))
          else Inr ys)"

subsection \<open>Evaluation, scoring, update\<close>

fun mlp_apply ::
  "'b neural_network \<Rightarrow> nat \<Rightarrow> bool \<Rightarrow> expr \<Rightarrow> nat list \<Rightarrow> error + expr" where
  "mlp_apply s axis train x [] = Inr x"
| "mlp_apply s axis train x (i # is) =
     (case map_of (params s) (Tuple ''W'' i axis) of
        None \<Rightarrow> Inl KeyError
      | Some W \<Rightarrow>
     (case map_of (params s) (Tuple ''b'' i axis) of
        None \<Rightarrow> Inl KeyError
      | Some b \<Rightarrow>
          let x1 = (if train \<and> dropout s \<noteq> 0 then Dropout x (dropout s) else x)
          in mlp_apply s axis train
               (Activation (activation s) (Add (Mul (Parameter W) x1) (Parameter b))) is))"

definition evaluate_mlp ::
  "'b env \<Rightarrow> features \<Rightarrow> nat \<Rightarrow> bool \<Rightarrow> 'b neural_network \<Rightarrow> error + expr" where
  "evaluate_mlp E feats axis train s =
     (case generate_inputs E s feats of
        Inl e \<Rightarrow> Inl e
      | Inr inputs \<Rightarrow>
     (case mlp_apply s axis train (Concatenate inputs) [0..<layers s + 1] of
        Inl e \<Rightarrow> Inl e
      | Inr x \<Rightarrow>
     (case py_nth (num_labels E (base s)) axis of
        Inl e \<Rightarrow> Inl e
      | Inr n \<Rightarrow> Inr (LogSoftmax x [0..<n]))))"

definition evaluate ::
  "'b env \<Rightarrow> features \<Rightarrow> nat \<Rightarrow> bool \<Rightarrow> 'b neural_network \<Rightarrow>
   error + (expr \<times> 'b neural_network)" where
  "evaluate E feats axis train s =
     (case (if model s = None then init_model E s else Inr s) of
        Inl e \<Rightarrow> Inl e
      | Inr s1 \<Rightarrow>
     (case py_nth (cached_value s1) axis of
        Inl e \<Rightarrow> Inl e
      | Inr None \<Rightarrow>
          (case evaluate_mlp E feats axis train s1 of
             Inl e \<Rightarrow> Inl e
           | Inr v \<Rightarrow> Inr (v, s1\<lparr>cached_value := (cached_value s1)[axis := Some v]\<rparr>))
      | Inr (Some v) \<Rightarrow> Inr (v, s1)))"

definition score ::
  "'b env \<Rightarrow> features \<Rightarrow> nat \<Rightarrow> 'b neural_network \<Rightarrow>
   error + (rat list \<times> 'b neural_network)" where
  "score E feats axis s =
     (case super_score E (base s) feats axis of
        Inl e \<Rightarrow> Inl e
      | Inr b \<Rightarrow>
          let s1 = s\<lparr>base := b\<rparr> in
          if iteration s1 > 0 then
            (case evaluate E feats axis False s1 of
               Inl e \<Rightarrow> Inl e
             | Inr (v, s2) \<Rightarrow>
            (case py_nth (num_labels E (base s2)) axis of
               Inl e \<Rightarrow> Inl e
             | Inr n \<Rightarrow> Inr (take n (npvalue E v), s2)))
          else
            let s2 = (if arg_verbose (config E) > 2 then emit [Print NoUpdatesYet] s1 else s1) in
            (case py_nth (num_labels E (base s2)) axis of
               Inl e \<Rightarrow> Inl e
             | Inr n \<Rightarrow> Inr (replicate n 0, s2)))"

text \<open>\<^verbatim>\<open>int(x)\<close> on a number: truncation towards zero.\<close>

definition py_int :: "rat \<Rightarrow> int" where
  "py_int r = (if 0 \<le> r then \<lfloor>r\<rfloor> else \<lceil>r\<rceil>)"

text \<open>
  The loop of \<^verbatim>\<open>update\<close>, with the number of iterations of \<^verbatim>\<open>range(int(importance))\<close> still
  to run. With \<^verbatim>\<open>dynet_viz\<close> set the process exits inside the first iteration.
\<close>

fun update_loop ::
  "'b env \<Rightarrow> features \<Rightarrow> nat \<Rightarrow> nat \<Rightarrow> nat \<Rightarrow> 'b neural_network \<Rightarrow> error + 'b neural_network" where
  "update_loop E feats axis true 0 s = Inr s"
| "update_loop E feats axis true (Suc k) s =
     (case evaluate E feats axis True s of
        Inl e \<Rightarrow> Inl e
      | Inr (v, s1) \<Rightarrow>
          let s2 = s1\<lparr>losses := losses s1 @ [Pick v true]\<rparr> in
          if arg_dynet_viz (config E) then Inl (SystemExit 0)
          else update_loop E feats axis true k s2)"

definition update ::
  "'b env \<Rightarrow> features \<Rightarrow> nat \<Rightarrow> nat \<Rightarrow> nat \<Rightarrow> rat \<Rightarrow> 'b neural_network \<Rightarrow>
   error + 'b neural_network" where
  "update E feats axis pred true importance s =
     (case super_update E (base s) feats axis pred true importance of
        Inl e \<Rightarrow> Inl e
      | Inr b \<Rightarrow> update_loop E feats axis true (nat (py_int importance)) (s\<lparr>base := b\<rparr>))"

subsection \<open>Step, item and minibatch lifecycle\<close>

definition finished_step :: "'b env \<Rightarrow> bool \<Rightarrow> 'b neural_network \<Rightarrow> 'b neural_network" where
  "finished_step E train s =
     s\<lparr>cached_value := replicate (length (num_labels E (base s))) None\<rparr>"

text \<open>The body of \<^verbatim>\<open>if self._losses:\<close> in \<^verbatim>\<open>finalize\<close>: one gradient step on the queue.\<close>

definition flush :: "'b env \<Rightarrow> 'b neural_network \<Rightarrow> error + 'b neural_network" where
  "flush E s =
     (let loss = Neg (Esum (losses s));
          s1 = emit [Forward loss] s;
          s2 = (if arg_verbose (config E) > 2
                then emit [Print (TotalLoss (length (losses s1)) loss)] s1 else s1);
          s3 = emit [Backward loss] s2
      in case trainer s3 of
           None \<Rightarrow> Inl AttributeError
         | Some t \<Rightarrow>
             let s4 = init_cg (emit [TrainerUpdate t] s3)
             in Inr (s4\<lparr>losses := [], iteration := iteration s4 + 1\<rparr>))"

definition finalize ::
  "'b env \<Rightarrow> bool \<Rightarrow> 'b neural_network \<Rightarrow> error + 'b neural_network" where
  "finalize E finished_epoch s =
     (case super_finalize E (base s) of
        Inl e \<Rightarrow> Inl e
      | Inr b \<Rightarrow>
     (case (if model s = None then init_model E (s\<lparr>base := b\<rparr>) else Inr (s\<lparr>base := b\<rparr>)) of
        Inl e \<Rightarrow> Inl e
      | Inr s1 \<Rightarrow>
     (case (if losses s1 \<noteq> [] then flush E s1 else Inr s1) of
        Inl e \<Rightarrow> Inl e
      | Inr s2 \<Rightarrow>
     (case (if finished_epoch then
              (case trainer s2 of
                 None \<Rightarrow> Inl AttributeError
               | Some t \<Rightarrow> Inr (emit [TrainerUpdateEpoch t] s2))
            else Inr s2) of
        Inl e \<Rightarrow> Inl e
      | Inr s3 \<Rightarrow>
          if arg_verbose (config E) > 1 then
            (case trainer s3 of
               None \<Rightarrow> Inl AttributeError
             | Some t \<Rightarrow> Inr (emit [TrainerStatus t] s3))
          else Inr s3))))"

definition finished_item ::
  "'b env \<Rightarrow> bool \<Rightarrow> 'b neural_network \<Rightarrow> error + 'b neural_network" where
  "finished_item E train s =
     (case (if int (length (losses s)) \<ge> minibatch_size s then finalize E False s
            else if \<not> train then Inr (init_cg s)
            else Inr s) of
        Inl e \<Rightarrow> Inl e
      | Inr s1 \<Rightarrow> Inr (finished_step E train s1))"

subsection \<open>Persistence: saving\<close>

text \<open>\<^verbatim>\<open>d.update(extra)\<close> on a dict.\<close>

fun dict_update :: "('k \<times> 'v) list \<Rightarrow> ('k \<times> 'v) list \<Rightarrow> ('k \<times> 'v) list" where
  "dict_update d [] = d"
| "dict_update d ((k, v) # kvs) = dict_update (od_set d k v) kvs"

definition descriptor :: "'b neural_network \<Rightarrow> dvalue dict" where
  "descriptor s =
     [(''input_params'', DInputParams (input_params s)),
      (''param_keys'', DKeys (map fst (params s))),
      (''layers'', DNat (layers s)),
      (''layer_dim'', DNat (layer_dim s)),
      (''activation'', DStr (activation_str s)),
      (''init'', DStr (init_str s)),
      (''optimizer'', DStr (optimizer_str s)),
      (''iteration'', DNat (iteration s))]"

definition save_model ::
  "'b env \<Rightarrow> 'b neural_network \<Rightarrow> error + (dvalue dict \<times> 'b neural_network)" where
  "save_model E s =
     (case finalize E False s of
        Inl e \<Rightarrow> Inl e
      | Inr s1 \<Rightarrow>
     (case save_extra E (base s1) of
        Inl e \<Rightarrow> Inl e
      | Inr extra \<Rightarrow>
          let d = dict_update (descriptor s1) extra;
              model_filename = filename E (base s1) @ ''.model''
          in
     (case (case os_remove E model_filename of
              None \<Rightarrow> Inr (emit [Print (RemovedExisting model_filename)] s1)
            | Some OSError \<Rightarrow> Inr s1
            | Some e \<Rightarrow> Inl e) of
        Inl e \<Rightarrow> Inl e
      | Inr s2 \<Rightarrow>
          let s3 = emit [Print (SavingModel model_filename)] s2 in
     (case model s3 of
        None \<Rightarrow> Inl AttributeError
      | Some m \<Rightarrow>
     (case model_save E model_filename (map snd (params s3)) of
        None \<Rightarrow>
          Inr (d, emit [ModelSave model_filename (map snd (params s3)), Print Done] s3)
      | Some (ValueError msg) \<Rightarrow> Inr (d, emit [Print (FailedSaving msg)] s3)
      | Some e \<Rightarrow> Inl e)))))"

section \<open>Auxiliary definitions\<close>

subsection \<open>What model initialisation and evaluation leave alone\<close>

text \<open>
  \<open>frame s s'\<close>: the attributes that only \<^verbatim>\<open>__init__\<close>, \<^verbatim>\<open>update\<close>, \<^verbatim>\<open>finished_step\<close> and the
  flush write are the same in \<open>s\<close> and \<open>s'\<close>. \<open>engine_kept\<close> adds the trainer and that an
  existing engine model stays.
\<close>

definition frame :: "'b neural_network \<Rightarrow> 'b neural_network \<Rightarrow> bool" where
  "frame s s' \<longleftrightarrow>
     base s' = base s \<and> max_num_labels s' = max_num_labels s \<and> layers s' = layers s \<and>
     layer_dim s' = layer_dim s \<and> output_dim s' = output_dim s \<and>
     activation_str s' = activation_str s \<and> init_str s' = init_str s \<and>
     minibatch_size s' = minibatch_size s \<and> dropout s' = dropout s \<and>
     optimizer_str s' = optimizer_str s \<and> activation s' = activation s \<and>
     init s' = init s \<and> optimizer s' = optimizer s \<and>
     own_num_labels s' = own_num_labels s \<and> input_params s' = input_params s \<and>
     losses s' = losses s \<and> iteration s' = iteration s \<and>
     cached_value s' = cached_value s"

definition engine_kept :: "'b neural_network \<Rightarrow> 'b neural_network \<Rightarrow> bool" where
  "engine_kept s s' \<longleftrightarrow>
     frame s s' \<and> trainer s' = trainer s \<and> (model s \<noteq> None \<longrightarrow> model s' \<noteq> None)"

subsection \<open>Objects the class can produce\<close>

text \<open>
  The objects reached from the constructor by calls of the methods that return. The score
  cache of each of them holds log-softmax nodes only.
\<close>

fun is_log_softmax :: "expr \<Rightarrow> bool" where
  "is_log_softmax (LogSoftmax x r) = True"
| "is_log_softmax _ = False"

definition log_softmax_cache :: "'b neural_network \<Rightarrow> bool" where
  "log_softmax_cache s \<longleftrightarrow>
     (\<forall>c \<in> set (cached_value s). case c of None \<Rightarrow> True | Some v \<Rightarrow> is_log_softmax v)"

inductive reachable :: "'b env \<Rightarrow> 'b neural_network \<Rightarrow> bool" for E :: "'b env" where
  constructed: "new_network E b ips mx = Inr s \<Longrightarrow> reachable E s"
| after_init_model: "reachable E s \<Longrightarrow> init_model E s = Inr s' \<Longrightarrow> reachable E s'"
| after_evaluate:
    "reachable E s \<Longrightarrow> evaluate E feats axis train s = Inr (v, s') \<Longrightarrow> reachable E s'"
| after_score: "reachable E s \<Longrightarrow> score E feats axis s = Inr (r, s') \<Longrightarrow> reachable E s'"
| after_update:
    "reachable E s \<Longrightarrow> update E feats axis pred true importance s = Inr s' \<Longrightarrow>
     reachable E s'"
| after_finished_step: "reachable E s \<Longrightarrow> reachable E (finished_step E train s)"
| after_finished_item:
    "reachable E s \<Longrightarrow> finished_item E train s = Inr s' \<Longrightarrow> reachable E s'"
| after_finalize: "reachable E s \<Longrightarrow> finalize E finished_epoch s = Inr s' \<Longrightarrow> reachable E s'"
| after_save_model: "reachable E s \<Longrightarrow> save_model E s = Inr (d, s') \<Longrightarrow> reachable E s'"

subsection \<open>A caller issuing update calls in sequence\<close>

fun update_calls ::
  "'b env \<Rightarrow> (features \<times> nat \<times> nat \<times> nat \<times> rat) list \<Rightarrow> 'b neural_network \<Rightarrow>
   error + 'b neural_network" where
  "update_calls E [] s = Inr s"
| "update_calls E ((feats, axis, pred, true, importance) # calls) s =
     (case update E feats axis pred true importance s of
        Inl e \<Rightarrow> Inl e
      | Inr s1 \<Rightarrow> update_calls E calls s1)"

subsection \<open>A concrete classifier\<close>

text \<open>
  One numeric feature of width 2, one axis with at most 5 labels of which 2 exist,
  \<^verbatim>\<open>layers = 1\<close>, \<^verbatim>\<open>layer_dim = 4\<close>, \<^verbatim>\<open>output_dim = 3\<close>, a minibatch of 2. The base class is
  the list of current label counts; its hooks return normally and change nothing.
\<close>

definition example_args :: args where
  "example_args = \<lparr> arg_layers = 1, arg_layer_dim = 4, arg_output_dim = 3,
      arg_activation = ''tanh'', arg_init = ''glorot_uniform'', arg_minibatch_size = 2,
      arg_dropout = 0, arg_optimizer = ''sgd'', arg_verbose = 0, arg_dynet_viz = False \<rparr>"

definition example_env :: "nat list env" where
  "example_env = \<lparr> config = example_args, MISSING_VALUE = -1,
      num_labels = (\<lambda>b. b), filename = (\<lambda>b. ''nn''),
      super_score = (\<lambda>b f a. Inr b), super_update = (\<lambda>b f a p t w. Inr b),
      super_finalize = (\<lambda>b. Inr b), save_extra = (\<lambda>b. Inr []),
      npvalue = (\<lambda>e. []), os_remove = (\<lambda>f. Some OSError), model_save = (\<lambda>f ps. None) \<rparr>"

definition example_params :: "feature_param dict" where
  "example_params = [(''num'', \<lparr> param_size = 0, param_dim = 1, param_numeric = True,
      param_indexed = False, param_updated = False, param_num = 2, param_init = None \<rparr>)]"

definition example_net :: "nat list neural_network" where
  "example_net =
     \<lparr> base = [2], model = None, max_num_labels = [5], layers = 1, layer_dim = 4,
       output_dim = 3, activation_str = ''tanh'', init_str = ''glorot_uniform'',
       minibatch_size = 2, dropout = 0, optimizer_str = ''sgd'', activation = tanh_fn,
       init = GlorotInitializer, optimizer = SimpleSGDTrainer, own_num_labels = [2],
       params = [], empty_values = [], input_params = example_params,
       indexed_num = None, indexed_dim = None, input_dim = None, losses = [],
       iteration = 0, trainer = None, cached_value = [None], trace = [] \<rparr>"

definition example_features :: features where
  "example_features = [(''num'', [1 / 10, - (1 / 5)])]"

text \<open>
  The classifier after model initialisation, the log-softmax node its network builds for
  \<open>example_features\<close> on axis 0, and the object after \<open>k\<close> loss terms for true label 0
  were queued.
\<close>

definition example_hidden :: expr where
  "example_hidden =
     Activation tanh_fn
       (Add (Mul (Parameter (Parameters 2 [5, 3] GlorotInitializer))
              (Activation tanh_fn
                (Add (Mul (Parameter (Parameters 0 [3, 2] GlorotInitializer))
                       (Concatenate [InputVector [1 / 10, - (1 / 5)]]))
                  (Parameter (Parameters 1 [3] GlorotInitializer)))))
         (Parameter (Parameters 3 [5] GlorotInitializer)))"

definition example_output :: expr where
  "example_output = LogSoftmax example_hidden [0, 1]"

definition example_ready :: "nat list neural_network" where
  "example_ready =
     example_net
       \<lparr> model := Some [Parameters 0 [3, 2] GlorotInitializer, Parameters 1 [3] GlorotInitializer,
                         Parameters 2 [5, 3] GlorotInitializer, Parameters 3 [5] GlorotInitializer],
         params := [(Tuple ''W'' 0 0, Parameters 0 [3, 2] GlorotInitializer),
                    (Tuple ''b'' 0 0, Parameters 1 [3] GlorotInitializer),
                    (Tuple ''W'' 1 0, Parameters 2 [5, 3] GlorotInitializer),
                    (Tuple ''b'' 1 0, Parameters 3 [5] GlorotInitializer)],
         indexed_num := Some 0, indexed_dim := Some 0, input_dim := Some 2,
         trainer := Some SimpleSGDTrainer, trace := [RenewCg] \<rparr>"

definition example_queued :: "nat \<Rightarrow> nat list neural_network" where
  "example_queued k =
     example_ready\<lparr>cached_value := [Some example_output],
                   losses := replicate k (Pick example_output 0)\<rparr>"

definition example_calls :: "(features \<times> nat \<times> nat \<times> nat \<times> rat) list" where
  "example_calls = [(example_features, 0, 1, 0, 1), (example_features, 0, 1, 0, 1)]"

text \<open>After the queue of two terms was flushed, and after the model was then saved.\<close>

definition example_flushed :: "nat list neural_network" where
  "example_flushed =
     example_ready
       \<lparr> cached_value := [Some example_output], iteration := 1,
         trace := [RenewCg,
                   Forward (Neg (Esum [Pick example_output 0, Pick example_output 0])),
                   Backward (Neg (Esum [Pick example_output 0, Pick example_output 0])),
                   TrainerUpdate SimpleSGDTrainer, RenewCg] \<rparr>"

definition example_saved :: "nat list neural_network" where
  "example_saved =
     emit [Print (SavingModel ''nn.model''),
           ModelSave ''nn.model''
             [Parameters 0 [3, 2] GlorotInitializer, Parameters 1 [3] GlorotInitializer,
              Parameters 2 [5, 3] GlorotInitializer, Parameters 3 [5] GlorotInitializer],
           Print Done] example_flushed"

definition example_descriptor :: "dvalue dict" where
  "example_descriptor =
     [(''input_params'', DInputParams example_params),
      (''param_keys'', DKeys [Tuple ''W'' 0 0, Tuple ''b'' 0 0, Tuple ''W'' 1 0, Tuple ''b'' 1 0]),
      (''layers'', DNat 1), (''layer_dim'', DNat 4), (''activation'', DStr ''tanh''),
      (''init'', DStr ''glorot_uniform''), (''optimizer'', DStr ''sgd''),
      (''iteration'', DNat 1)]"

text \<open>
  The same surroundings with an engine whose \<^verbatim>\<open>model.save\<close> raises: \<^verbatim>\<open>ValueError\<close> in the
  first, \<^verbatim>\<open>OSError\<close> (an unwritable path) in the second.
\<close>

definition example_env_rejected :: "nat list env" where
  "example_env_rejected =
     example_env\<lparr>model_save := (\<lambda>f ps. Some (ValueError ''cannot write''))\<rparr>"

definition example_env_disk_failure :: "nat list env" where
  "example_env_disk_failure = example_env\<lparr>model_save := (\<lambda>f ps. Some OSError)\<rparr>"

subsection \<open>Indexed slots and input widths, in closed form\<close>

text \<open>
  The largest declared \<^verbatim>\<open>num\<close> over all feature types flagged indexed, as the specification
  words the slot count, and over those of them that have a non-zero dimension.
\<close>

definition max_num_of_indexed_types :: "feature_param dict \<Rightarrow> nat" where
  "max_num_of_indexed_types ps =
     Max (set (0 # map (param_num \<circ> snd) (filter (param_indexed \<circ> snd) ps)))"

definition max_num_of_active_indexed_types :: "feature_param dict \<Rightarrow> nat" where
  "max_num_of_active_indexed_types ps =
     Max (set (0 # map (param_num \<circ> snd)
                     (filter (\<lambda>kp. param_dim (snd kp) \<noteq> 0 \<and> param_indexed (snd kp)) ps)))"

text \<open>
  The ids that the scan of \<^verbatim>\<open>generate_inputs\<close> buffers from a list of items: the values of the
  non-numeric indexed feature types of non-zero dimension, in the order of the items.
\<close>

definition buffered_ids :: "'b neural_network \<Rightarrow> (string \<times> rat list) list \<Rightarrow> rat list" where
  "buffered_ids s items =
     concat (map snd
       (filter (\<lambda>kv. case map_of (input_params s) (fst kv) of
                         None \<Rightarrow> False
                       | Some p \<Rightarrow> \<not> param_numeric p \<and> param_dim p \<noteq> 0 \<and> param_indexed p)
          items))"

text \<open>
  The length of the vector an expression denotes, for the nodes that input assembly builds
  (an input vector, a row of a lookup table, a concatenation), extended to the other nodes.
\<close>

fun expr_dim :: "expr \<Rightarrow> nat" where
  "expr_dim (InputVector vs) = length vs"
| "expr_dim (Lookup h x) = (case h of LookupParameters n rows cols u a \<Rightarrow> cols | _ \<Rightarrow> 0)"
| "expr_dim (Concatenate es) = sum_list (map expr_dim es)"
| "expr_dim (Parameter h) = (case handle_shape h of [] \<Rightarrow> 0 | r # _ \<Rightarrow> r)"
| "expr_dim (Dropout e r) = expr_dim e"
| "expr_dim (Mul a b) = expr_dim a"
| "expr_dim (Add a b) = expr_dim a"
| "expr_dim (Activation f e) = expr_dim e"
| "expr_dim (LogSoftmax e r) = expr_dim e"
| "expr_dim (Pick e i) = 1"
| "expr_dim (Esum es) = (case es of [] \<Rightarrow> 0 | e # _ \<Rightarrow> 1)"
| "expr_dim (Neg e) = expr_dim e"

text \<open>What \<^verbatim>\<open>init_input_params\<close> adds to \<^verbatim>\<open>_input_dim\<close> for one non-indexed feature type.\<close>

definition feature_width :: "feature_param \<Rightarrow> nat" where
  "feature_width p =
     (if param_dim p \<noteq> 0 \<and> \<not> param_indexed p then param_num p * param_dim p else 0)"

text \<open>
  A feature dictionary that fits the declared feature types: every key is declared, every
  numeric type and every lookup type of non-zero dimension comes with its declared number
  \<^verbatim>\<open>num\<close> of values, and every type of non-zero declared width is present.
\<close>

definition valid_features :: "feature_param dict \<Rightarrow> features \<Rightarrow> bool" where
  "valid_features ps feats \<longleftrightarrow>
     distinct (map fst feats) \<and>
     (\<forall>kv \<in> set feats.
        case map_of ps (fst kv) of
          None \<Rightarrow> False
        | Some p \<Rightarrow>
            param_numeric p \<or> param_dim p \<noteq> 0 \<longrightarrow> length (snd kv) = param_num p) \<and>
     (\<forall>kp \<in> set ps. feature_width (snd kp) \<noteq> 0 \<longrightarrow> fst kp \<in> fst ` set feats)"

subsection \<open>Two more concrete classifiers\<close>

text \<open>
  One with two feature types flagged indexed, of which \<^verbatim>\<open>a\<close> has dimension 0; one with a
  lookup type \<^verbatim>\<open>tag\<close> and a numeric type \<^verbatim>\<open>num\<close>, and a dictionary in two insertion orders.
\<close>

definition example_indexed_params :: "feature_param dict" where
  "example_indexed_params =
     [(''b'', \<lparr> param_size = 10, param_dim = 1, param_numeric = False, param_indexed = True,
                 param_updated = True, param_num = 3, param_init = None \<rparr>),
      (''a'', \<lparr> param_size = 10, param_dim = 0, param_numeric = False, param_indexed = True,
                 param_updated = True, param_num = 5, param_init = None \<rparr>)]"

definition example_indexed_net :: "nat list neural_network" where
  "example_indexed_net = example_net\<lparr>input_params := example_indexed_params\<rparr>"

definition example_indexed_ready :: "nat list neural_network" where
  "example_indexed_ready =
     example_indexed_net
       \<lparr> model := Some [LookupParameters 0 10 1 True None,
                         Parameters 1 [3, 3] GlorotInitializer, Parameters 2 [3] GlorotInitializer,
                         Parameters 3 [5, 3] GlorotInitializer, Parameters 4 [5] GlorotInitializer],
         params := [(Suffix ''b'', LookupParameters 0 10 1 True None),
                    (Tuple ''W'' 0 0, Parameters 1 [3, 3] GlorotInitializer),
                    (Tuple ''b'' 0 0, Parameters 2 [3] GlorotInitializer),
                    (Tuple ''W'' 1 0, Parameters 3 [5, 3] GlorotInitializer),
                    (Tuple ''b'' 1 0, Parameters 4 [5] GlorotInitializer)],
         empty_values := [(''b'', InputVector [0])],
         indexed_num := Some 3, indexed_dim := Some 1, input_dim := Some 3,
         trainer := Some SimpleSGDTrainer, trace := [RenewCg] \<rparr>"

definition example_mixed_params :: "feature_param dict" where
  "example_mixed_params =
     [(''tag'', \<lparr> param_size = 10, param_dim = 3, param_numeric = False, param_indexed = False,
                   param_updated = True, param_num = 2, param_init = None \<rparr>),
      (''num'', \<lparr> param_size = 0, param_dim = 1, param_numeric = True, param_indexed = False,
                   param_updated = False, param_num = 2, param_init = None \<rparr>)]"

definition example_mixed_net :: "nat list neural_network" where
  "example_mixed_net = example_net\<lparr>input_params := example_mixed_params\<rparr>"

definition example_mixed_ready :: "nat list neural_network" where
  "example_mixed_ready =
     example_mixed_net
       \<lparr> model := Some [LookupParameters 0 10 3 True None,
                         Parameters 1 [3, 8] GlorotInitializer, Parameters 2 [3] GlorotInitializer,
                         Parameters 3 [5, 3] GlorotInitializer, Parameters 4 [5] GlorotInitializer],
         params := [(Suffix ''tag'', LookupParameters 0 10 3 True None),
                    (Tuple ''W'' 0 0, Parameters 1 [3, 8] GlorotInitializer),
                    (Tuple ''b'' 0 0, Parameters 2 [3] GlorotInitializer),
                    (Tuple ''W'' 1 0, Parameters 3 [5, 3] GlorotInitializer),
                    (Tuple ''b'' 1 0, Parameters 4 [5] GlorotInitializer)],
         empty_values := [(''tag'', InputVector [0, 0, 0])],
         indexed_num := Some 0, indexed_dim := Some 0, input_dim := Some 8,
         trainer := Some SimpleSGDTrainer, trace := [RenewCg] \<rparr>"

definition example_mixed_features :: features where
  "example_mixed_features = [(''tag'', [4, - 1]), (''num'', [1 / 10, - (1 / 5)])]"

definition example_mixed_features_reordered :: features where
  "example_mixed_features_reordered = [(''num'', [1 / 10, - (1 / 5)]), (''tag'', [4, - 1])]"

definition example_mixed_inputs :: "expr list" where
  "example_mixed_inputs =
     [InputVector [1 / 10, - (1 / 5)],
      Concatenate [Lookup (LookupParameters 0 10 3 True None) 4, InputVector [0, 0, 0]]]"

text \<open>
  A classifier with a numeric type of dimension 0 beside one of dimension 1, and a
  dictionary that supplies each with its declared number of values.
\<close>

definition example_numeric_params :: "feature_param dict" where
  "example_numeric_params =
     [(''num'', \<lparr> param_size = 0, param_dim = 1, param_numeric = True, param_indexed = False,
                   param_updated = False, param_num = 2, param_init = None \<rparr>),
      (''flag'', \<lparr> param_size = 0, param_dim = 0, param_numeric = True, param_indexed = False,
                    param_updated = False, param_num = 3, param_init = None \<rparr>)]"

definition example_numeric_net :: "nat list neural_network" where
  "example_numeric_net = example_net\<lparr>input_params := example_numeric_params\<rparr>"

definition example_numeric_ready :: "nat list neural_network" where
  "example_numeric_ready = example_ready\<lparr>input_params := example_numeric_params\<rparr>"

definition example_numeric_features :: features where
  "example_numeric_features = [(''num'', [1 / 10, - (1 / 5)]), (''flag'', [1, 0, 1])]"

section \<open>Properties\<close>

subsection \<open>The capacity check\<close>

lemma resize_loop_Some:
  "i \<le> a \<Longrightarrow> a - i < length lms \<Longrightarrow>
   resize_loop (Some a) i lms =
     (if fst (lms ! (a - i)) \<le> snd (lms ! (a - i)) then Inr ()
      else Inl (AssertionError ''Exceeded maximum number of labels at dimension %d: %d > %d''
                  [a, fst (lms ! (a - i)), snd (lms ! (a - i))]))"
proof (induction lms arbitrary: i)
  case Nil
  then show ?case by simp
next
  case (Cons lm lms)
  obtain l m where lm: "lm = (l, m)" by (cases lm)
  show ?case
  proof (cases "a = i")
    case True
    have past: "resize_loop (Some i) j xs = Inr ()" if "i < j" for j xs
      using that by (induction xs arbitrary: j) auto
    show ?thesis using True lm past[of "Suc i" lms] by simp
  next
    case False
    with Cons.prems have lt: "Suc i \<le> a" and len: "a - Suc i < length lms" by auto
    have idx: "(lm # lms) ! (a - i) = lms ! (a - Suc i)"
      using lt by (simp add: nth_Cons' Suc_diff_le)
    show ?thesis using Cons.IH[OF lt len] False lm idx by simp
  qed
qed

lemma resize_loop_None:
  "resize_loop None i lms = Inr () \<longleftrightarrow> (\<forall>lm \<in> set lms. fst lm \<le> snd lm)"
  by (induction lms arbitrary: i) (force split: if_splits)+

text \<open>
  Checking every axis at once (\<^verbatim>\<open>resize()\<close>) passes exactly when no axis that both sequences
  cover holds more labels than its maximum.
\<close>

lemma resize_all_axes:
  "resize E None s = Inr () \<longleftrightarrow>
     (\<forall>a < min (length (num_labels E (base s))) (length (max_num_labels s)).
         num_labels E (base s) ! a \<le> max_num_labels s ! a)"
  by (auto simp: resize_def resize_loop_None set_zip)

text \<open>
  Claim C7. For an axis that has both a current and a maximum label count, the capacity
  check \<^verbatim>\<open>resize(axis)\<close> returns normally whenever the current count is at most the maximum,
  equality included, and raises the assertion error naming the axis and the two counts
  whenever the current count exceeds the maximum.
\<close>

theorem resize_capacity_check:
  assumes "a < length (num_labels E (base s))" and "a < length (max_num_labels s)"
  shows "(num_labels E (base s) ! a \<le> max_num_labels s ! a \<longrightarrow> resize E (Some a) s = Inr ()) \<and>
         (max_num_labels s ! a < num_labels E (base s) ! a \<longrightarrow>
            resize E (Some a) s =
              Inl (AssertionError ''Exceeded maximum number of labels at dimension %d: %d > %d''
                     [a, num_labels E (base s) ! a, max_num_labels s ! a]))"
  using assms by (simp add: resize_def resize_loop_Some)

theorem resize_capacity_check_witness:
  "resize example_env (Some 0) (example_net\<lparr>base := [5]\<rparr>) = Inr () \<and>
   resize example_env (Some 0) (example_net\<lparr>base := [6]\<rparr>) =
     Inl (AssertionError ''Exceeded maximum number of labels at dimension %d: %d > %d'' [0, 6, 5])"
  using resize_capacity_check[of 0 example_env "example_net\<lparr>base := [5]\<rparr>"]
        resize_capacity_check[of 0 example_env "example_net\<lparr>base := [6]\<rparr>"]
  by (simp add: example_env_def example_net_def)

subsection \<open>Ordered dictionaries\<close>

lemma map_of_od_set: "map_of (od_set kvs k v) k' = (if k' = k then Some v else map_of kvs k')"
  by (induction kvs) auto

lemma map_of_dict_update_other:
  "k \<notin> fst ` set extra \<Longrightarrow> map_of (dict_update d extra) k = map_of d k"
  by (induction extra arbitrary: d) (auto simp: map_of_od_set)

subsection \<open>Frame of model initialisation\<close>

lemma frame_refl: "frame s s"
  by (simp add: frame_def)

lemma frame_trans: "frame s s1 \<Longrightarrow> frame s1 s2 \<Longrightarrow> frame s s2"
  by (simp add: frame_def)

lemma engine_kept_refl: "engine_kept s s"
  by (simp add: engine_kept_def frame_refl)

lemma engine_kept_trans: "engine_kept s s1 \<Longrightarrow> engine_kept s1 s2 \<Longrightarrow> engine_kept s s2"
  unfolding engine_kept_def using frame_trans by fastforce

lemma add_lookup_kept: "add_lookup s suffix param = Inr s' \<Longrightarrow> engine_kept s s'"
  by (auto simp: add_lookup_def engine_kept_def frame_def Let_def split: option.splits)

lemma count_feature_kept: "count_feature s param = Inr s' \<Longrightarrow> engine_kept s s'"
  by (auto simp: count_feature_def engine_kept_def frame_def split: option.splits if_splits)

lemma init_input_loop_kept: "init_input_loop s ps = Inr s' \<Longrightarrow> engine_kept s s'"
proof (induction ps arbitrary: s)
  case Nil
  then show ?case by (simp add: engine_kept_refl)
next
  case (Cons sp ps)
  obtain suffix param where sp: "sp = (suffix, param)" by (cases sp)
  show ?case
  proof (cases "param_dim param = 0")
    case True
    then show ?thesis using Cons sp by simp
  next
    case False
    from Cons.prems sp False obtain s1 s2 where
      s1: "(if \<not> param_numeric param then add_lookup s suffix param else Inr s) = Inr s1"
      and s2: "count_feature s1 param = Inr s2"
      and rest: "init_input_loop s2 ps = Inr s'"
      by (auto split: sum.splits)
    have "engine_kept s s1"
      using s1 add_lookup_kept engine_kept_refl by (auto split: if_splits)
    moreover have "engine_kept s1 s2" using s2 by (rule count_feature_kept)
    moreover have "engine_kept s2 s'" using rest by (rule Cons.IH)
    ultimately show ?thesis by (blast intro: engine_kept_trans)
  qed
qed

lemma init_input_params_kept: "init_input_params s = Inr s' \<Longrightarrow> engine_kept s s'"
proof -
  assume a: "init_input_params s = Inr s'"
  let ?s0 = "s\<lparr>input_dim := Some 0, indexed_dim := Some 0, indexed_num := Some 0\<rparr>"
  from a obtain s1 where l: "init_input_loop ?s0 (sorted_items (input_params s)) = Inr s1"
    and e: "\<exists>d. s' = s1\<lparr>input_dim := Some d\<rparr>"
    by (auto simp: init_input_params_def split: sum.splits option.splits)
  have "engine_kept s ?s0" by (simp add: engine_kept_def frame_def)
  moreover have "engine_kept ?s0 s1" using l by (rule init_input_loop_kept)
  moreover have "engine_kept s1 s'" using e by (auto simp: engine_kept_def frame_def)
  ultimately show ?thesis by (blast intro: engine_kept_trans)
qed

lemma mlp_layer_loop_kept: "mlp_layer_loop s axis ind outd is = Inr s' \<Longrightarrow> engine_kept s s'"
proof (induction "is" arbitrary: s)
  case Nil
  then show ?case by (simp add: engine_kept_refl)
next
  case (Cons i "is")
  from Cons.prems obtain m od idm where m: "model s = Some m"
    and rest: "mlp_layer_loop
         (s\<lparr>model := Some (m @ [Parameters (length m) [od, idm] (init s),
                                  Parameters (Suc (length m)) [od] (init s)]),
            params := od_set (od_set (params s) (Tuple ''W'' i axis)
                                (Parameters (length m) [od, idm] (init s)))
                        (Tuple ''b'' i axis) (Parameters (Suc (length m)) [od] (init s))\<rparr>)
         axis ind outd is = Inr s'"
    by (auto simp: Let_def split: option.splits sum.splits)
  from rest have "engine_kept
         (s\<lparr>model := Some (m @ [Parameters (length m) [od, idm] (init s),
                                  Parameters (Suc (length m)) [od] (init s)]),
            params := od_set (od_set (params s) (Tuple ''W'' i axis)
                                (Parameters (length m) [od, idm] (init s)))
                        (Tuple ''b'' i axis) (Parameters (Suc (length m)) [od] (init s))\<rparr>) s'"
    by (rule Cons.IH)
  then show ?case by (simp add: engine_kept_def frame_def)
qed

lemma mlp_axis_loop_kept: "mlp_axis_loop s axes = Inr s' \<Longrightarrow> engine_kept s s'"
proof (induction axes arbitrary: s)
  case Nil
  then show ?case by (simp add: engine_kept_refl)
next
  case (Cons axis axes)
  from Cons.prems obtain s1 mx d where
    step: "mlp_layer_loop s axis (in_dim s d) (out_dim s mx) [0..<layers s + 1] = Inr s1"
    and rest: "mlp_axis_loop s1 axes = Inr s'"
    by (auto split: option.splits sum.splits)
  from step have "engine_kept s s1" by (rule mlp_layer_loop_kept)
  moreover from rest have "engine_kept s1 s'" by (rule Cons.IH)
  ultimately show ?case by (blast intro: engine_kept_trans)
qed

lemma init_cg_frame: "frame s (init_cg s)"
  by (simp add: init_cg_def emit_def frame_def)

lemma init_cg_kept: "engine_kept s (init_cg s)"
  by (simp add: init_cg_def emit_def engine_kept_def frame_def)

lemma init_model_frame:
  assumes "init_model E s = Inr s'"
  shows "frame s s'" and "trainer s' = Some (optimizer s)" and "model s' \<noteq> None"
proof -
  let ?s0 = "s\<lparr>model := Some [], trainer := Some (optimizer s)\<rparr>"
  from assms obtain s1 s2 where a: "init_input_params ?s0 = Inr s1"
    and b: "init_mlp_params E s1 = Inr s2" and c: "s' = init_cg s2"
    by (auto simp: init_model_def split: sum.splits)
  have "engine_kept ?s0 s1" using a by (rule init_input_params_kept)
  moreover have "engine_kept s1 s2"
    using b unfolding init_mlp_params_def by (rule mlp_axis_loop_kept)
  moreover have "engine_kept s2 s'" using c init_cg_kept by simp
  ultimately have k: "engine_kept ?s0 s'" by (blast intro: engine_kept_trans)
  have f0: "frame s ?s0" by (simp add: frame_def)
  from k have "frame ?s0 s'" by (simp add: engine_kept_def)
  with f0 show "frame s s'" by (rule frame_trans)
  from k show "trainer s' = Some (optimizer s)" by (simp add: engine_kept_def)
  from k show "model s' \<noteq> None" by (simp add: engine_kept_def)
qed

subsection \<open>The parameters allocated for the layers\<close>

lemma in_dim_nth:
  "i \<le> layers s \<Longrightarrow>
   in_dim s d ! i = (if i = 0 then d else if i < layers s then layer_dim s else output_dim s)"
  by (cases i) (auto simp: in_dim_def nth_append)

lemma out_dim_nth:
  "i \<le> layers s \<Longrightarrow>
   out_dim s mx ! i =
     (if Suc i < layers s then layer_dim s
      else if Suc i = layers s \<or> layers s = 0 then output_dim s else mx)"
  by (auto simp: out_dim_def nth_append nth_Cons' less_Suc_eq)

lemma dims_length:
  "i \<le> layers s \<Longrightarrow> i < length (in_dim s d) \<and> i < length (out_dim s mx)"
  by (auto simp: in_dim_def out_dim_def)

lemma mlp_layer_loop_step:
  assumes "mlp_layer_loop s axis ind outd (i # is) = Inr s'"
  obtains m where "model s = Some m" and "i < length outd" and "i < length ind"
    and "mlp_layer_loop
           (s\<lparr>model := Some (m @ [Parameters (length m) [outd ! i, ind ! i] (init s),
                                    Parameters (Suc (length m)) [outd ! i] (init s)]),
              params := od_set (od_set (params s) (Tuple ''W'' i axis)
                                  (Parameters (length m) [outd ! i, ind ! i] (init s)))
                          (Tuple ''b'' i axis)
                          (Parameters (Suc (length m)) [outd ! i] (init s))\<rparr>)
           axis ind outd is = Inr s'"
proof (cases "model s")
  case None
  then show ?thesis using assms by simp
next
  case (Some m)
  have o: "i < length outd"
    using assms Some by (cases "i < length outd") (simp_all add: py_nth_def)
  have n: "i < length ind"
    using assms Some o by (cases "i < length ind") (simp_all add: py_nth_def)
  show ?thesis
    using assms Some o n that[of m] by (simp add: py_nth_def Let_def)
qed

lemma mlp_layer_loop_params_other:
  assumes "mlp_layer_loop s axis ind outd is = Inr s'"
    and "\<forall>i \<in> set is. k \<noteq> Tuple ''W'' i axis \<and> k \<noteq> Tuple ''b'' i axis"
  shows "map_of (params s') k = map_of (params s) k"
  using assms
proof (induction "is" arbitrary: s)
  case Nil
  then show ?case by simp
next
  case (Cons i "is")
  from Cons.prems(1) obtain m where
    rest: "mlp_layer_loop
           (s\<lparr>model := Some (m @ [Parameters (length m) [outd ! i, ind ! i] (init s),
                                    Parameters (Suc (length m)) [outd ! i] (init s)]),
              params := od_set (od_set (params s) (Tuple ''W'' i axis)
                                  (Parameters (length m) [outd ! i, ind ! i] (init s)))
                          (Tuple ''b'' i axis)
                          (Parameters (Suc (length m)) [outd ! i] (init s))\<rparr>)
           axis ind outd is = Inr s'"
    by (rule mlp_layer_loop_step)
  from Cons.IH[OF rest] Cons.prems(2) show ?case by (simp add: map_of_od_set)
qed

lemma mlp_layer_loop_params_set:
  assumes "mlp_layer_loop s axis ind outd is = Inr s'" and "distinct is" and "i \<in> set is"
  shows "(\<exists>n. map_of (params s') (Tuple ''W'' i axis) =
                Some (Parameters n [outd ! i, ind ! i] (init s))) \<and>
         (\<exists>n. map_of (params s') (Tuple ''b'' i axis) = Some (Parameters n [outd ! i] (init s)))"
  using assms
proof (induction "is" arbitrary: s)
  case Nil
  then show ?case by simp
next
  case (Cons j "is")
  from Cons.prems(1) obtain m where
    rest: "mlp_layer_loop
           (s\<lparr>model := Some (m @ [Parameters (length m) [outd ! j, ind ! j] (init s),
                                    Parameters (Suc (length m)) [outd ! j] (init s)]),
              params := od_set (od_set (params s) (Tuple ''W'' j axis)
                                  (Parameters (length m) [outd ! j, ind ! j] (init s)))
                          (Tuple ''b'' j axis)
                          (Parameters (Suc (length m)) [outd ! j] (init s))\<rparr>)
           axis ind outd is = Inr s'" (is "mlp_layer_loop ?s1 _ _ _ _ = _")
    by (rule mlp_layer_loop_step)
  show ?case
  proof (cases "i = j")
    case True
    have nj: "j \<notin> set is" using Cons.prems(2) by simp
    have "map_of (params s') (Tuple ''W'' j axis) = map_of (params ?s1) (Tuple ''W'' j axis)"
      using rest nj by (intro mlp_layer_loop_params_other) auto
    moreover
    have "map_of (params s') (Tuple ''b'' j axis) = map_of (params ?s1) (Tuple ''b'' j axis)"
      using rest nj by (intro mlp_layer_loop_params_other) auto
    ultimately show ?thesis using True by (simp add: map_of_od_set)
  next
    case False
    then have "i \<in> set is" using Cons.prems(3) by simp
    from Cons.IH[OF rest _ this] Cons.prems(2) show ?thesis by simp
  qed
qed

lemma mlp_axis_loop_step:
  assumes "mlp_axis_loop s (axis # axes) = Inr s'"
  obtains d s1 where "axis < length (max_num_labels s)" and "input_dim s = Some d"
    and "mlp_layer_loop s axis (in_dim s d) (out_dim s (max_num_labels s ! axis))
           [0..<layers s + 1] = Inr s1"
    and "mlp_axis_loop s1 axes = Inr s'"
proof (cases "input_dim s")
  case None
  then show ?thesis using assms by simp
next
  case (Some d)
  show ?thesis
  proof (cases "axis < length (max_num_labels s)")
    case False
    then show ?thesis using assms Some by (simp add: py_nth_def)
  next
    case True
    show ?thesis
    proof (cases "mlp_layer_loop s axis (in_dim s d) (out_dim s (max_num_labels s ! axis))
           [0..<layers s + 1]")
      case (Inl e)
      then show ?thesis using assms True Some by (simp add: py_nth_def)
    next
      case (Inr s1)
      then show ?thesis using assms True Some that[of d s1] by (simp add: py_nth_def)
    qed
  qed
qed

lemma mlp_layer_loop_input_dim:
  "mlp_layer_loop s axis ind outd is = Inr s' \<Longrightarrow> input_dim s' = input_dim s"
proof (induction "is" arbitrary: s)
  case Nil
  then show ?case by simp
next
  case (Cons i "is")
  from Cons.prems obtain m where
    rest: "mlp_layer_loop
           (s\<lparr>model := Some (m @ [Parameters (length m) [outd ! i, ind ! i] (init s),
                                    Parameters (Suc (length m)) [outd ! i] (init s)]),
              params := od_set (od_set (params s) (Tuple ''W'' i axis)
                                  (Parameters (length m) [outd ! i, ind ! i] (init s)))
                          (Tuple ''b'' i axis)
                          (Parameters (Suc (length m)) [outd ! i] (init s))\<rparr>)
           axis ind outd is = Inr s'"
    by (rule mlp_layer_loop_step)
  from Cons.IH[OF rest] show ?case by simp
qed

lemma mlp_axis_loop_input_dim:
  "mlp_axis_loop s axes = Inr s' \<Longrightarrow> input_dim s' = input_dim s"
proof (induction axes arbitrary: s)
  case Nil
  then show ?case by simp
next
  case (Cons axis axes)
  from Cons.prems obtain d s1 where
    l: "mlp_layer_loop s axis (in_dim s d) (out_dim s (max_num_labels s ! axis))
           [0..<layers s + 1] = Inr s1"
    and r: "mlp_axis_loop s1 axes = Inr s'"
    by (rule mlp_axis_loop_step)
  from Cons.IH[OF r] mlp_layer_loop_input_dim[OF l] show ?case by simp
qed

lemma mlp_axis_loop_params_other:
  assumes "mlp_axis_loop s axes = Inr s'" and "axis \<notin> set axes"
  shows "map_of (params s') (Tuple r i axis) = map_of (params s) (Tuple r i axis)"
  using assms
proof (induction axes arbitrary: s)
  case Nil
  then show ?case by simp
next
  case (Cons a axes)
  from Cons.prems(1) obtain d s1 where
    l: "mlp_layer_loop s a (in_dim s d) (out_dim s (max_num_labels s ! a))
           [0..<layers s + 1] = Inr s1"
    and r: "mlp_axis_loop s1 axes = Inr s'"
    by (rule mlp_axis_loop_step)
  have "map_of (params s1) (Tuple r i axis) = map_of (params s) (Tuple r i axis)"
    using l Cons.prems(2) by (intro mlp_layer_loop_params_other) auto
  with Cons.IH[OF r] Cons.prems(2) show ?case by simp
qed

lemma mlp_axis_loop_params_set:
  assumes "mlp_axis_loop s axes = Inr s'" and "distinct axes" and "axis \<in> set axes"
    and "input_dim s = Some d" and "i \<le> layers s"
  shows "(\<exists>n. map_of (params s') (Tuple ''W'' i axis) =
                Some (Parameters n [out_dim s (max_num_labels s ! axis) ! i, in_dim s d ! i]
                        (init s))) \<and>
         (\<exists>n. map_of (params s') (Tuple ''b'' i axis) =
                Some (Parameters n [out_dim s (max_num_labels s ! axis) ! i] (init s)))"
  using assms
proof (induction axes arbitrary: s)
  case Nil
  then show ?case by simp
next
  case (Cons a axes)
  from Cons.prems(1) obtain d' s1 where
    d': "input_dim s = Some d'"
    and l: "mlp_layer_loop s a (in_dim s d') (out_dim s (max_num_labels s ! a))
           [0..<layers s + 1] = Inr s1"
    and r: "mlp_axis_loop s1 axes = Inr s'"
    by (rule mlp_axis_loop_step)
  have dd: "d' = d" using d' Cons.prems(4) by simp
  have k: "engine_kept s s1" using l by (rule mlp_layer_loop_kept)
  have i1: "input_dim s1 = Some d" using mlp_layer_loop_input_dim[OF l] Cons.prems(4) by simp
  have same: "in_dim s1 d = in_dim s d" "out_dim s1 mx = out_dim s mx"
       "max_num_labels s1 = max_num_labels s" "init s1 = init s" "layers s1 = layers s" for mx
    using k by (simp_all add: engine_kept_def frame_def in_dim_def out_dim_def)
  show ?case
  proof (cases "axis = a")
    case True
    have na: "a \<notin> set axes" using Cons.prems(2) by simp
    have keep: "map_of (params s') (Tuple r i a) = map_of (params s1) (Tuple r i a)" for r
      using r na by (rule mlp_axis_loop_params_other)
    have "i \<in> set [0..<layers s + 1]" using Cons.prems(5) by auto
    from mlp_layer_loop_params_set[OF l _ this] keep True dd show ?thesis by simp
  next
    case False
    then have "axis \<in> set axes" using Cons.prems(3) by simp
    from Cons.IH[OF r _ this i1] Cons.prems(2,5) same show ?thesis by simp
  qed
qed

lemma init_model_cases:
  assumes "init_model E s = Inr s'"
  obtains s1 s2 where
    "init_input_params (s\<lparr>model := Some [], trainer := Some (optimizer s)\<rparr>) = Inr s1"
    and "init_mlp_params E s1 = Inr s2" and "s' = init_cg s2"
  using assms unfolding init_model_def by (auto split: sum.splits)

lemma init_input_params_input_dim:
  assumes "init_input_params s = Inr s'"
  shows "\<exists>d. input_dim s' = Some d"
  using assms unfolding init_input_params_def
  by (auto split: sum.splits option.splits)

lemma init_input_loop_params_tuple:
  "init_input_loop s ps = Inr s' \<Longrightarrow>
   map_of (params s') (Tuple r i a) = map_of (params s) (Tuple r i a)"
proof (induction ps arbitrary: s)
  case Nil
  then show ?case by simp
next
  case (Cons sp ps)
  obtain suffix param where sp: "sp = (suffix, param)" by (cases sp)
  show ?case
  proof (cases "param_dim param = 0")
    case True
    then show ?thesis using Cons sp by simp
  next
    case False
    from Cons.prems sp False obtain s1 s2 where
      s1: "(if \<not> param_numeric param then add_lookup s suffix param else Inr s) = Inr s1"
      and s2: "count_feature s1 param = Inr s2"
      and rest: "init_input_loop s2 ps = Inr s'"
      by (auto split: sum.splits)
    have "map_of (params s1) (Tuple r i a) = map_of (params s) (Tuple r i a)"
      using s1 by (cases "param_numeric param")
        (auto simp: add_lookup_def Let_def map_of_od_set split: option.splits)
    moreover have "params s2 = params s1"
      using s2 by (auto simp: count_feature_def split: option.splits if_splits)
    ultimately show ?thesis using Cons.IH[OF rest] by simp
  qed
qed

lemma init_input_params_params_tuple:
  assumes "init_input_params s = Inr s'"
  shows "map_of (params s') (Tuple r i a) = map_of (params s) (Tuple r i a)"
proof -
  let ?s0 = "s\<lparr>input_dim := Some 0, indexed_dim := Some 0, indexed_num := Some 0\<rparr>"
  from assms obtain s1 where l: "init_input_loop ?s0 (sorted_items (input_params s)) = Inr s1"
    and e: "\<exists>d. s' = s1\<lparr>input_dim := Some d\<rparr>"
    by (auto simp: init_input_params_def split: sum.splits option.splits)
  from init_input_loop_params_tuple[OF l, of r i a] e show ?thesis by auto
qed

lemma mlp_axis_loop_params_above:
  assumes "mlp_axis_loop s axes = Inr s'" and "layers s < j"
  shows "map_of (params s') (Tuple r j axis) = map_of (params s) (Tuple r j axis)"
  using assms
proof (induction axes arbitrary: s)
  case Nil
  then show ?case by simp
next
  case (Cons a axes)
  from Cons.prems(1) obtain d s1 where
    l: "mlp_layer_loop s a (in_dim s d) (out_dim s (max_num_labels s ! a))
           [0..<layers s + 1] = Inr s1"
    and r: "mlp_axis_loop s1 axes = Inr s'"
    by (rule mlp_axis_loop_step)
  have "layers s1 = layers s"
    using mlp_layer_loop_kept[OF l] by (simp add: engine_kept_def frame_def)
  moreover have "map_of (params s1) (Tuple r j axis) = map_of (params s) (Tuple r j axis)"
    using l Cons.prems(2) by (intro mlp_layer_loop_params_other) auto
  ultimately show ?case using Cons.IH[OF r] Cons.prems(2) by simp
qed

lemma init_model_layer_params:
  assumes "init_model E s = Inr s'" and "axis < length (num_labels E (base s))"
    and "i \<le> layers s"
  shows "\<exists>d nW nb. input_dim s' = Some d \<and>
           map_of (params s') (Tuple ''W'' i axis) =
             Some (Parameters nW [out_dim s (max_num_labels s ! axis) ! i, in_dim s d ! i]
                     (init s)) \<and>
           map_of (params s') (Tuple ''b'' i axis) =
             Some (Parameters nb [out_dim s (max_num_labels s ! axis) ! i] (init s))"
proof -
  let ?s0 = "s\<lparr>model := Some [], trainer := Some (optimizer s)\<rparr>"
  from assms(1) obtain s1 s2 where a: "init_input_params ?s0 = Inr s1"
    and b: "init_mlp_params E s1 = Inr s2" and c: "s' = init_cg s2"
    by (rule init_model_cases)
  from init_input_params_input_dim[OF a] obtain d where d: "input_dim s1 = Some d" by blast
  have k: "engine_kept ?s0 s1" using a by (rule init_input_params_kept)
  then have same: "base s1 = base s" "layers s1 = layers s" "init s1 = init s"
      "max_num_labels s1 = max_num_labels s" "in_dim s1 d = in_dim s d"
      "out_dim s1 mx = out_dim s mx" for mx
    by (simp_all add: engine_kept_def frame_def in_dim_def out_dim_def)
  have loop: "mlp_axis_loop s1 [0..<length (num_labels E (base s))] = Inr s2"
    using b same(1) by (simp add: init_mlp_params_def)
  have ax: "axis \<in> set [0..<length (num_labels E (base s))]" using assms(2) by simp
  have il: "i \<le> layers s1" using assms(3) same(2) by simp
  from mlp_axis_loop_params_set[OF loop _ ax d il] same
  have "(\<exists>n. map_of (params s2) (Tuple ''W'' i axis) =
                Some (Parameters n [out_dim s (max_num_labels s ! axis) ! i, in_dim s d ! i]
                        (init s))) \<and>
         (\<exists>n. map_of (params s2) (Tuple ''b'' i axis) =
                Some (Parameters n [out_dim s (max_num_labels s ! axis) ! i] (init s)))"
    by simp
  moreover have "params s' = params s2" "input_dim s' = Some d"
    using c d mlp_axis_loop_input_dim[OF loop] by (simp_all add: init_cg_def emit_def)
  ultimately show ?thesis by auto
qed

lemma init_model_params_above:
  assumes "init_model E s = Inr s'" and "layers s < j"
  shows "map_of (params s') (Tuple r j axis) = map_of (params s) (Tuple r j axis)"
proof -
  let ?s0 = "s\<lparr>model := Some [], trainer := Some (optimizer s)\<rparr>"
  from assms(1) obtain s1 s2 where a: "init_input_params ?s0 = Inr s1"
    and b: "init_mlp_params E s1 = Inr s2" and c: "s' = init_cg s2"
    by (rule init_model_cases)
  have "layers s1 = layers s"
    using init_input_params_kept[OF a] by (simp add: engine_kept_def frame_def)
  then have "map_of (params s2) (Tuple r j axis) = map_of (params s1) (Tuple r j axis)"
    using b assms(2) unfolding init_mlp_params_def
    by (intro mlp_axis_loop_params_above) simp_all
  moreover have "map_of (params s1) (Tuple r j axis) = map_of (params ?s0) (Tuple r j axis)"
    using a by (rule init_input_params_params_tuple)
  moreover have "params s' = params s2" using c by (simp add: init_cg_def emit_def)
  ultimately show ?thesis by simp
qed

subsection \<open>Input parameters and input assembly\<close>

lemma Max_Cons_fold: "Max (set (n # xs)) = fold max xs (n::nat)"
  by (rule Max.set_eq_fold)

lemma init_input_loop_indexed_num:
  assumes "init_input_loop s ps = Inr s'" and "indexed_num s = Some n"
  shows "indexed_num s' =
           Some (fold max (map (param_num \<circ> snd)
                    (filter (\<lambda>kp. param_dim (snd kp) \<noteq> 0 \<and> param_indexed (snd kp)) ps)) n)"
  using assms
proof (induction ps arbitrary: s n)
  case Nil
  then show ?case by simp
next
  case (Cons sp ps)
  obtain suffix param where sp: "sp = (suffix, param)" by (cases sp)
  show ?case
  proof (cases "param_dim param = 0")
    case True
    then show ?thesis using Cons sp by simp
  next
    case False
    from Cons.prems(1) sp False obtain s1 s2 where
      s1: "(if \<not> param_numeric param then add_lookup s suffix param else Inr s) = Inr s1"
      and s2: "count_feature s1 param = Inr s2"
      and rest: "init_input_loop s2 ps = Inr s'"
      by (auto split: sum.splits)
    have n1: "indexed_num s1 = Some n"
      using s1 Cons.prems(2) by (cases "param_numeric param")
        (auto simp: add_lookup_def Let_def split: option.splits)
    have n2: "indexed_num s2 = Some (if param_indexed param then max n (param_num param) else n)"
      using s2 n1 by (auto simp: count_feature_def split: option.splits if_splits)
    from Cons.IH[OF rest n2] sp False show ?thesis by (simp add: max.commute)
  qed
qed

lemma init_input_params_indexed_num:
  assumes "init_input_params s = Inr s'"
  shows "indexed_num s' = Some (max_num_of_active_indexed_types (input_params s))"
proof -
  let ?s0 = "s\<lparr>input_dim := Some 0, indexed_dim := Some 0, indexed_num := Some 0\<rparr>"
  let ?P = "\<lambda>kp::string \<times> feature_param. param_dim (snd kp) \<noteq> 0 \<and> param_indexed (snd kp)"
  from assms obtain s1 where l: "init_input_loop ?s0 (sorted_items (input_params s)) = Inr s1"
    and e: "\<exists>d. s' = s1\<lparr>input_dim := Some d\<rparr>"
    by (auto simp: init_input_params_def split: sum.splits option.splits)
  have "indexed_num s1 =
          Some (fold max (map (param_num \<circ> snd) (filter ?P (sorted_items (input_params s)))) 0)"
    using init_input_loop_indexed_num[OF l] by simp
  also have "fold max (map (param_num \<circ> snd) (filter ?P (sorted_items (input_params s)))) 0 =
      Max (set (0 # map (param_num \<circ> snd) (filter ?P (sorted_items (input_params s)))))"
    by (simp only: Max_Cons_fold)
  also have "set (0 # map (param_num \<circ> snd) (filter ?P (sorted_items (input_params s)))) =
      set (0 # map (param_num \<circ> snd) (filter ?P (input_params s)))"
    by (simp add: sorted_items_def)
  finally show ?thesis using e by (auto simp: max_num_of_active_indexed_types_def)
qed

lemma mlp_layer_loop_indexed_num:
  "mlp_layer_loop s axis ind outd is = Inr s' \<Longrightarrow> indexed_num s' = indexed_num s"
proof (induction "is" arbitrary: s)
  case Nil
  then show ?case by simp
next
  case (Cons i "is")
  from Cons.prems obtain m where
    rest: "mlp_layer_loop
           (s\<lparr>model := Some (m @ [Parameters (length m) [outd ! i, ind ! i] (init s),
                                    Parameters (Suc (length m)) [outd ! i] (init s)]),
              params := od_set (od_set (params s) (Tuple ''W'' i axis)
                                  (Parameters (length m) [outd ! i, ind ! i] (init s)))
                          (Tuple ''b'' i axis)
                          (Parameters (Suc (length m)) [outd ! i] (init s))\<rparr>)
           axis ind outd is = Inr s'"
    by (rule mlp_layer_loop_step)
  from Cons.IH[OF rest] show ?case by simp
qed

lemma mlp_axis_loop_indexed_num:
  "mlp_axis_loop s axes = Inr s' \<Longrightarrow> indexed_num s' = indexed_num s"
proof (induction axes arbitrary: s)
  case Nil
  then show ?case by simp
next
  case (Cons axis axes)
  from Cons.prems obtain d s1 where
    l: "mlp_layer_loop s axis (in_dim s d) (out_dim s (max_num_labels s ! axis))
           [0..<layers s + 1] = Inr s1"
    and r: "mlp_axis_loop s1 axes = Inr s'"
    by (rule mlp_axis_loop_step)
  from Cons.IH[OF r] mlp_layer_loop_indexed_num[OF l] show ?case by simp
qed

lemma init_model_indexed_num:
  assumes "init_model E s = Inr s'"
  shows "indexed_num s' = Some (max_num_of_active_indexed_types (input_params s))"
proof -
  let ?s0 = "s\<lparr>model := Some [], trainer := Some (optimizer s)\<rparr>"
  from assms obtain s1 s2 where a: "init_input_params ?s0 = Inr s1"
    and b: "init_mlp_params E s1 = Inr s2" and c: "s' = init_cg s2"
    by (rule init_model_cases)
  have "indexed_num s2 = indexed_num s1"
    using b unfolding init_mlp_params_def by (rule mlp_axis_loop_indexed_num)
  then show ?thesis
    using init_input_params_indexed_num[OF a] c by (simp add: init_cg_def emit_def)
qed

lemma scan_features_buffer:
  assumes "scan_features E s items acc = Inr (ys, indices)"
  shows "indices = acc @ buffered_ids s items"
  using assms
proof (induction items arbitrary: acc ys)
  case Nil
  then show ?case by (simp add: buffered_ids_def)
next
  case (Cons kv items)
  obtain suffix vals where kv: "kv = (suffix, vals)" by (cases kv)
  have cons: "buffered_ids s ((suffix, vals) # items) =
      (case map_of (input_params s) suffix of
         None \<Rightarrow> buffered_ids s items
       | Some p \<Rightarrow> if \<not> param_numeric p \<and> param_dim p \<noteq> 0 \<and> param_indexed p
                   then vals @ buffered_ids s items else buffered_ids s items)"
    by (simp add: buffered_ids_def split: option.splits)
  show ?case
  proof (cases "map_of (input_params s) suffix")
    case None
    then show ?thesis using Cons.prems kv by simp
  next
    case (Some p)
    show ?thesis
    proof (cases "param_numeric p")
      case True
      then obtain ys' where "scan_features E s items acc = Inr (ys', indices)"
        using Cons.prems kv Some by (auto split: sum.splits)
      from Cons.IH[OF this] True Some kv cons show ?thesis by simp
    next
      case num: False
      show ?thesis
      proof (cases "param_dim p = 0")
        case True
        then have "scan_features E s items acc = Inr (ys, indices)"
          using Cons.prems kv Some num by simp
        from Cons.IH[OF this] True Some kv cons show ?thesis by simp
      next
        case dim: False
        show ?thesis
        proof (cases "param_indexed p")
          case True
          then have "scan_features E s items (acc @ vals) = Inr (ys, indices)"
            using Cons.prems kv Some num dim by simp
          from Cons.IH[OF this] True Some kv cons num dim show ?thesis by simp
        next
          case False
          then obtain ys' where "scan_features E s items acc = Inr (ys', indices)"
            using Cons.prems kv Some num dim by (auto split: sum.splits)
          from Cons.IH[OF this] False Some kv cons show ?thesis by simp
        qed
      qed
    qed
  qed
qed

lemma generate_inputs_buffered:
  assumes "scan_features E s (sorted_items feats) [] = Inr (ys, indices)"
    and "indices \<noteq> []" and "indexed_num s = Some n"
  shows "generate_inputs E s feats =
           (if length indices = n
            then Inl (ValueError
              ''Input representations not initialized, cannot evaluate indexed features'')
            else Inl (AssertionError ''Wrong number of index features: %d != %d''
                        [length indices, n]))"
  using assms by (simp add: generate_inputs_def index_input_def)

lemma sorted_items_eq:
  assumes "distinct (map fst f1)" and "distinct (map fst f2)" and "map_of f1 = map_of f2"
  shows "sorted_items f1 = sorted_items f2"
proof -
  have s: "set f1 = set f2" using assms by (simp add: map_of_inject_set)
  have d1: "distinct f1" and d2: "distinct f2"
    using assms(1,2) by (simp_all add: distinct_map)
  have m: "mset f1 = mset (sort_key fst f2)"
    using s d1 d2 by (simp add: set_eq_iff_mset_eq_distinct)
  have i: "inj_on fst (set f1)" using assms(1) by (simp add: distinct_map)
  show ?thesis
    unfolding sorted_items_def by (rule sort_key_inj_key_eq[OF m i]) simp
qed

lemma init_input_loop_cons:
  assumes "init_input_loop s ((suffix, param) # ps) = Inr s'" and "param_dim param \<noteq> 0"
  obtains s1 s2 where
    "(if \<not> param_numeric param then add_lookup s suffix param else Inr s) = Inr s1"
    and "count_feature s1 param = Inr s2" and "init_input_loop s2 ps = Inr s'"
  using assms by (auto split: sum.splits)

lemma add_lookup_fields:
  assumes "(if \<not> param_numeric param then add_lookup s suffix param else Inr s) = Inr s1"
  shows "input_dim s1 = input_dim s" and "indexed_dim s1 = indexed_dim s"
    and "map_of (params s1) k =
           (if \<not> param_numeric param \<and> k = Suffix suffix
            then Some (LookupParameters (length (the (model s))) (param_size param)
                         (param_dim param) (param_updated param) (param_init param))
            else map_of (params s) k)"
  using assms
  by (cases "param_numeric param";
      auto simp: add_lookup_def Let_def map_of_od_set split: option.splits)+

lemma count_feature_fields:
  assumes "count_feature s1 param = Inr s2"
  shows "params s2 = params s1"
    and "input_dim s1 = Some a \<Longrightarrow>
         input_dim s2 = Some (if param_indexed param then a
                              else a + param_num param * param_dim param)"
    and "indexed_dim s1 = Some b \<Longrightarrow>
         indexed_dim s2 = Some (if param_indexed param then b + param_dim param else b)"
  using assms by (auto simp: count_feature_def split: option.splits if_splits)

lemma init_input_loop_widths:
  assumes "init_input_loop s ps = Inr s'" and "input_dim s = Some a"
    and "indexed_dim s = Some b"
    and "\<forall>kp \<in> set ps. param_indexed (snd kp) \<longrightarrow> param_dim (snd kp) = 0"
  shows "input_dim s' = Some (a + sum_list (map (feature_width \<circ> snd) ps)) \<and>
         indexed_dim s' = Some b"
  using assms
proof (induction ps arbitrary: s a)
  case Nil
  then show ?case by simp
next
  case (Cons sp ps)
  obtain suffix param where sp: "sp = (suffix, param)" by (cases sp)
  show ?case
  proof (cases "param_dim param = 0")
    case True
    then have "init_input_loop s ps = Inr s'" using Cons.prems(1) sp by simp
    from Cons.IH[OF this Cons.prems(2,3)] Cons.prems(4) True sp
    show ?thesis by (simp add: feature_width_def)
  next
    case False
    from Cons.prems(1) sp False obtain s1 s2 where
      s1: "(if \<not> param_numeric param then add_lookup s suffix param else Inr s) = Inr s1"
      and s2: "count_feature s1 param = Inr s2" and rest: "init_input_loop s2 ps = Inr s'"
      using init_input_loop_cons[of s suffix param ps s'] by blast
    have ni: "\<not> param_indexed param" using Cons.prems(4) sp False by auto
    have a1: "input_dim s1 = Some a" and b1: "indexed_dim s1 = Some b"
      using add_lookup_fields(1,2)[OF s1] Cons.prems(2,3) by simp_all
    have a2: "input_dim s2 = Some (a + param_num param * param_dim param)"
      using count_feature_fields(2)[OF s2 a1] ni by simp
    have b2: "indexed_dim s2 = Some b"
      using count_feature_fields(3)[OF s2 b1] ni by simp
    from Cons.IH[OF rest a2 b2] Cons.prems(4) sp False ni
    show ?thesis by (simp add: feature_width_def)
  qed
qed

lemma init_input_loop_params_other:
  assumes "init_input_loop s ps = Inr s'" and "k \<notin> fst ` set ps"
  shows "map_of (params s') (Suffix k) = map_of (params s) (Suffix k)"
  using assms
proof (induction ps arbitrary: s)
  case Nil
  then show ?case by simp
next
  case (Cons sp ps)
  obtain suffix param where sp: "sp = (suffix, param)" by (cases sp)
  show ?case
  proof (cases "param_dim param = 0")
    case True
    then have "init_input_loop s ps = Inr s'" using Cons.prems(1) sp by simp
    from Cons.IH[OF this] Cons.prems(2) show ?thesis by simp
  next
    case False
    from Cons.prems(1) sp False obtain s1 s2 where
      s1: "(if \<not> param_numeric param then add_lookup s suffix param else Inr s) = Inr s1"
      and s2: "count_feature s1 param = Inr s2" and rest: "init_input_loop s2 ps = Inr s'"
      using init_input_loop_cons[of s suffix param ps s'] by blast
    have "map_of (params s2) (Suffix k) = map_of (params s) (Suffix k)"
      using add_lookup_fields(3)[OF s1, of "Suffix k"] count_feature_fields(1)[OF s2]
        Cons.prems(2) sp by auto
    with Cons.IH[OF rest] Cons.prems(2) show ?thesis by simp
  qed
qed

lemma init_input_loop_tables:
  assumes "init_input_loop s ps = Inr s'" and "distinct (map fst ps)" and "(k, p) \<in> set ps"
    and "\<not> param_numeric p" and "param_dim p \<noteq> 0"
  shows "\<exists>n. map_of (params s') (Suffix k) =
           Some (LookupParameters n (param_size p) (param_dim p) (param_updated p)
                   (param_init p))"
  using assms(1,2,3)
proof (induction ps arbitrary: s)
  case Nil
  then show ?case by simp
next
  case (Cons sp ps)
  obtain suffix param where sp: "sp = (suffix, param)" by (cases sp)
  show ?case
  proof (cases "(k, p) = (suffix, param)")
    case True
    then have kp: "k = suffix" "p = param" by simp_all
    from Cons.prems(1) sp kp assms(5) obtain s1 s2 where
      s1: "(if \<not> param_numeric param then add_lookup s suffix param else Inr s) = Inr s1"
      and s2: "count_feature s1 param = Inr s2" and rest: "init_input_loop s2 ps = Inr s'"
      using init_input_loop_cons[of s suffix param ps s'] by blast
    have nk: "k \<notin> fst ` set ps" using Cons.prems(2) sp kp by simp
    have "map_of (params s') (Suffix k) = map_of (params s2) (Suffix k)"
      using rest nk by (rule init_input_loop_params_other)
    then show ?thesis
      using add_lookup_fields(3)[OF s1, of "Suffix k"] count_feature_fields(1)[OF s2]
        kp assms(4) by auto
  next
    case False
    then have mem: "(k, p) \<in> set ps" using Cons.prems(3) sp by auto
    have d: "distinct (map fst ps)" using Cons.prems(2) by simp
    show ?thesis
    proof (cases "param_dim param = 0")
      case True
      then have "init_input_loop s ps = Inr s'" using Cons.prems(1) sp by simp
      from Cons.IH[OF this d mem] show ?thesis .
    next
      case nz: False
      from Cons.prems(1) sp nz obtain s1 s2 where
        rest: "init_input_loop s2 ps = Inr s'"
        using init_input_loop_cons[of s suffix param ps s'] by blast
      from Cons.IH[OF rest d mem] show ?thesis .
    qed
  qed
qed

lemma init_cg_loop_other:
  "k \<notin> fst ` set ps \<Longrightarrow> map_of (init_cg_loop ev ps) k = map_of ev k"
  by (induction ps arbitrary: ev) (auto simp: map_of_od_set)

lemma init_cg_loop_set:
  assumes "distinct (map fst ps)" and "(k, p) \<in> set ps"
    and "\<not> param_numeric p" and "param_dim p \<noteq> 0"
  shows "map_of (init_cg_loop ev ps) k = Some (zero_input (param_dim p))"
  using assms(1,2)
proof (induction ps arbitrary: ev)
  case Nil
  then show ?case by simp
next
  case (Cons sp ps)
  obtain suffix param where sp: "sp = (suffix, param)" by (cases sp)
  show ?case
  proof (cases "(k, p) = (suffix, param)")
    case True
    then have nk: "k \<notin> fst ` set ps" using Cons.prems(1) sp by simp
    show ?thesis
      using True sp assms(3,4) init_cg_loop_other[OF nk] by (simp add: map_of_od_set)
  next
    case False
    then have "(k, p) \<in> set ps" using Cons.prems(2) sp by auto
    moreover have "distinct (map fst ps)" using Cons.prems(1) by simp
    ultimately show ?thesis using Cons.IH sp by simp
  qed
qed

lemma mlp_axis_loop_params_suffix:
  assumes "mlp_axis_loop s axes = Inr s'"
  shows "map_of (params s') (Suffix k) = map_of (params s) (Suffix k)"
  using assms
proof (induction axes arbitrary: s)
  case Nil
  then show ?case by simp
next
  case (Cons a axes)
  from Cons.prems(1) obtain d s1 where
    l: "mlp_layer_loop s a (in_dim s d) (out_dim s (max_num_labels s ! a))
           [0..<layers s + 1] = Inr s1"
    and r: "mlp_axis_loop s1 axes = Inr s'"
    by (rule mlp_axis_loop_step)
  have "map_of (params s1) (Suffix k) = map_of (params s) (Suffix k)"
    using l by (intro mlp_layer_loop_params_other) auto
  with Cons.IH[OF r] show ?case by simp
qed

lemma init_model_assembly:
  assumes "init_model E s0 = Inr s" and "distinct (map fst (input_params s0))"
  shows "input_params s = input_params s0"
    and "\<forall>kp \<in> set (input_params s0). param_indexed (snd kp) \<longrightarrow> param_dim (snd kp) = 0 \<Longrightarrow>
         input_dim s =
           Some (sum_list (map (feature_width \<circ> snd) (sorted_items (input_params s0))))"
    and "(k, p) \<in> set (input_params s0) \<Longrightarrow> \<not> param_numeric p \<Longrightarrow> param_dim p \<noteq> 0 \<Longrightarrow>
         (\<exists>n. map_of (params s) (Suffix k) =
            Some (LookupParameters n (param_size p) (param_dim p) (param_updated p)
                    (param_init p))) \<and>
         map_of (empty_values s) k = Some (zero_input (param_dim p))"
proof -
  let ?s0 = "s0\<lparr>model := Some [], trainer := Some (optimizer s0)\<rparr>"
  let ?t0 = "?s0\<lparr>input_dim := Some 0, indexed_dim := Some 0, indexed_num := Some 0\<rparr>"
  let ?ps = "sorted_items (input_params s0)"
  from assms(1) obtain s1 s2 where a: "init_input_params ?s0 = Inr s1"
    and b: "init_mlp_params E s1 = Inr s2" and c: "s = init_cg s2"
    by (rule init_model_cases)
  from a obtain t1 d w where l: "init_input_loop ?t0 ?ps = Inr t1"
    and d: "input_dim t1 = Some d" and w: "init_indexed_input_params t1 = Inr w"
    and s1: "s1 = t1\<lparr>input_dim := Some (d + w)\<rparr>"
    by (auto simp: init_input_params_def split: sum.splits option.splits)
  have f: "frame s0 s"
    using init_model_frame(1)[OF assms(1)] .
  then show ip: "input_params s = input_params s0" by (simp add: frame_def)
  have k1: "engine_kept ?s0 s1" using a by (rule init_input_params_kept)
  have loop: "mlp_axis_loop s1 [0..<length (num_labels E (base s1))] = Inr s2"
    using b by (simp add: init_mlp_params_def)
  have k2: "engine_kept s1 s2" using loop by (rule mlp_axis_loop_kept)
  have ips2: "input_params s2 = input_params s0"
    using k1 k2 by (simp add: engine_kept_def frame_def)
  show "input_dim s =
           Some (sum_list (map (feature_width \<circ> snd) (sorted_items (input_params s0))))"
    if ni: "\<forall>kp \<in> set (input_params s0). param_indexed (snd kp) \<longrightarrow> param_dim (snd kp) = 0"
  proof -
    have ni': "\<forall>kp \<in> set ?ps. param_indexed (snd kp) \<longrightarrow> param_dim (snd kp) = 0"
      using ni by (simp add: sorted_items_def)
    have "input_dim t1 = Some (0 + sum_list (map (feature_width \<circ> snd) ?ps)) \<and>
          indexed_dim t1 = Some 0"
      using init_input_loop_widths[OF l _ _ ni', of 0 0] by simp
    then have "d = sum_list (map (feature_width \<circ> snd) ?ps)" and "w = 0"
      using d w by (auto simp: init_indexed_input_params_def split: option.splits)
    then have "input_dim s1 = Some (sum_list (map (feature_width \<circ> snd) ?ps))"
      using s1 by simp
    then show ?thesis
      using mlp_axis_loop_input_dim[OF loop] c by (simp add: init_cg_def emit_def)
  qed
  show "(\<exists>n. map_of (params s) (Suffix k) =
            Some (LookupParameters n (param_size p) (param_dim p) (param_updated p)
                    (param_init p))) \<and>
         map_of (empty_values s) k = Some (zero_input (param_dim p))"
    if mem: "(k, p) \<in> set (input_params s0)" and nn: "\<not> param_numeric p"
      and nz: "param_dim p \<noteq> 0"
  proof -
    have dps: "distinct (map fst ?ps)"
      using assms(2) by (simp add: sorted_items_def distinct_map inj_on_def)
    have mem': "(k, p) \<in> set ?ps" using mem by (simp add: sorted_items_def)
    from init_input_loop_tables[OF l dps mem' nn nz] obtain n where
      "map_of (params t1) (Suffix k) =
         Some (LookupParameters n (param_size p) (param_dim p) (param_updated p) (param_init p))"
      by blast
    then have "map_of (params s2) (Suffix k) =
         Some (LookupParameters n (param_size p) (param_dim p) (param_updated p) (param_init p))"
      using mlp_axis_loop_params_suffix[OF loop, of k] s1 by simp
    moreover have "params s = params s2" using c by (simp add: init_cg_def emit_def)
    moreover have "map_of (empty_values s) k = Some (zero_input (param_dim p))"
      using c ips2 init_cg_loop_set[OF dps mem' nn nz] by (simp add: init_cg_def emit_def)
    ultimately show ?thesis by simp
  qed
qed

lemma lookup_values_width:
  assumes "map_of (empty_values s) k = Some z" and "expr_dim z = w"
    and "map_of (params s) (Suffix k) = Some (LookupParameters n r w u a)"
  shows "\<exists>vs. lookup_values E s k vals = Inr vs \<and>
           sum_list (map expr_dim vs) = length vals * w"
  using assms by (induction vals) auto

lemma scan_features_width:
  assumes "\<forall>kv \<in> set items.
             \<exists>p. map_of (input_params s) (fst kv) = Some p \<and>
               (param_indexed p \<longrightarrow> param_dim p = 0) \<and>
               (param_numeric p \<longrightarrow> length (snd kv) = feature_width p) \<and>
               (\<not> param_numeric p \<and> param_dim p \<noteq> 0 \<longrightarrow> length (snd kv) = param_num p) \<and>
               (\<not> param_numeric p \<and> param_dim p \<noteq> 0 \<longrightarrow>
                  (\<exists>n r u a. map_of (params s) (Suffix (fst kv)) =
                     Some (LookupParameters n r (param_dim p) u a)) \<and>
                  map_of (empty_values s) (fst kv) = Some (zero_input (param_dim p)))"
  shows "\<exists>ys. scan_features E s items acc = Inr (ys, acc) \<and>
           sum_list (map expr_dim ys) =
             sum_list (map (\<lambda>kv. feature_width (the (map_of (input_params s) (fst kv)))) items)"
  using assms
proof (induction items)
  case Nil
  then show ?case by simp
next
  case (Cons kv items)
  obtain suffix vals where kv: "kv = (suffix, vals)" by (cases kv)
  have "\<exists>p. map_of (input_params s) suffix = Some p \<and>
               (param_indexed p \<longrightarrow> param_dim p = 0) \<and>
               (param_numeric p \<longrightarrow> length vals = feature_width p) \<and>
               (\<not> param_numeric p \<and> param_dim p \<noteq> 0 \<longrightarrow> length vals = param_num p) \<and>
               (\<not> param_numeric p \<and> param_dim p \<noteq> 0 \<longrightarrow>
                  (\<exists>n r u a. map_of (params s) (Suffix suffix) =
                     Some (LookupParameters n r (param_dim p) u a)) \<and>
                  map_of (empty_values s) suffix = Some (zero_input (param_dim p)))"
    using Cons.prems kv by simp
  then obtain p where p: "map_of (input_params s) suffix = Some p"
    and ni: "param_indexed p \<longrightarrow> param_dim p = 0"
    and lenn: "param_numeric p \<longrightarrow> length vals = feature_width p"
    and len: "\<not> param_numeric p \<and> param_dim p \<noteq> 0 \<longrightarrow> length vals = param_num p"
    and tab: "\<not> param_numeric p \<and> param_dim p \<noteq> 0 \<longrightarrow>
                  (\<exists>n r u a. map_of (params s) (Suffix suffix) =
                     Some (LookupParameters n r (param_dim p) u a)) \<and>
                  map_of (empty_values s) suffix = Some (zero_input (param_dim p))"
    by blast
  from Cons.IH Cons.prems obtain ys where
    ys: "scan_features E s items acc = Inr (ys, acc)"
    and sum: "sum_list (map expr_dim ys) =
             sum_list (map (\<lambda>kv. feature_width (the (map_of (input_params s) (fst kv)))) items)"
    by auto
  show ?case
  proof (cases "param_numeric p")
    case True
    then show ?thesis using kv p lenn ys sum by simp
  next
    case num: False
    show ?thesis
    proof (cases "param_dim p = 0")
      case True
      then show ?thesis using kv p num ys sum by (simp add: feature_width_def)
    next
      case dim: False
      then have nidx: "\<not> param_indexed p" using ni by simp
      from tab num dim obtain n r u a where
        t: "map_of (params s) (Suffix suffix) = Some (LookupParameters n r (param_dim p) u a)"
        and z: "map_of (empty_values s) suffix = Some (zero_input (param_dim p))"
        by auto
      have zd: "expr_dim (zero_input (param_dim p)) = param_dim p"
        by (simp add: zero_input_def)
      from lookup_values_width[OF z zd t, of E vals] obtain vs where
        vs: "lookup_values E s suffix vals = Inr vs"
        and vsum: "sum_list (map expr_dim vs) = length vals * param_dim p"
        by blast
      have "length vals = param_num p" using len num dim by simp
      then show ?thesis
        using kv p num dim nidx ys sum vs vsum by (simp add: feature_width_def)
    qed
  qed
qed

lemma sum_list_by_key:
  assumes "distinct (map fst xs)"
  shows "sum_list (map (\<lambda>kv. g (fst kv)) xs) = sum g (fst ` set xs)"
proof -
  have "sum_list (map (\<lambda>kv. g (fst kv)) xs) = sum_list (map g (map fst xs))"
    by (simp add: comp_def)
  also have "\<dots> = sum g (set (map fst xs))"
    using assms by (rule sum_list_distinct_conv_sum_set)
  finally show ?thesis by simp
qed

lemma declared_width_as_sum:
  assumes "distinct (map fst ps)"
  shows "sum_list (map (feature_width \<circ> snd) (sorted_items ps)) =
           sum (\<lambda>k. feature_width (the (map_of ps k))) (fst ` set ps)"
proof -
  let ?g = "\<lambda>k. feature_width (the (map_of ps k))"
  have d: "distinct (map fst (sorted_items ps))"
    using assms by (simp add: sorted_items_def distinct_map inj_on_def)
  have eq: "map (feature_width \<circ> snd) (sorted_items ps) =
      map (\<lambda>kv. ?g (fst kv)) (sorted_items ps)"
  proof (rule map_cong[OF refl])
    fix kp assume "kp \<in> set (sorted_items ps)"
    then have "(fst kp, snd kp) \<in> set ps" by (simp add: sorted_items_def)
    then have "map_of ps (fst kp) = Some (snd kp)" using assms by simp
    then show "(feature_width \<circ> snd) kp = ?g (fst kp)" by simp
  qed
  have "sum_list (map (feature_width \<circ> snd) (sorted_items ps)) =
      sum ?g (fst ` set (sorted_items ps))"
    unfolding eq by (rule sum_list_by_key[OF d])
  then show ?thesis by (simp add: sorted_items_def)
qed

lemma valid_features_sum:
  assumes "distinct (map fst ps)" and "valid_features ps feats"
  shows "sum (\<lambda>k. feature_width (the (map_of ps k))) (fst ` set feats) =
         sum (\<lambda>k. feature_width (the (map_of ps k))) (fst ` set ps)"
proof (rule sum.mono_neutral_left)
  show "finite (fst ` set ps)" by simp
  show "fst ` set feats \<subseteq> fst ` set ps"
  proof
    fix k assume "k \<in> fst ` set feats"
    then obtain kv where kv: "kv \<in> set feats" "k = fst kv" by auto
    then have "map_of ps k \<noteq> None"
      using assms(2) by (auto simp: valid_features_def split: option.splits)
    then show "k \<in> fst ` set ps" by (simp add: map_of_eq_None_iff)
  qed
  show "\<forall>k \<in> fst ` set ps - fst ` set feats. feature_width (the (map_of ps k)) = 0"
  proof
    fix k assume k: "k \<in> fst ` set ps - fst ` set feats"
    then obtain kp where kp: "kp \<in> set ps" "k = fst kp" by auto
    then have "(k, snd kp) \<in> set ps" by simp
    then have m: "map_of ps k = Some (snd kp)" using assms(1) by simp
    have "feature_width (snd kp) = 0"
      using assms(2) kp k by (auto simp: valid_features_def)
    with m show "feature_width (the (map_of ps k)) = 0" by simp
  qed
qed

subsection \<open>Evaluation and the update loop\<close>

lemma evaluate_cases:
  assumes "evaluate E feats axis train s = Inr (v, s')"
  obtains s1 where "(if model s = None then init_model E s else Inr s) = Inr s1"
    and "axis < length (cached_value s1)"
    and "cached_value s1 ! axis = Some v \<and> s' = s1 \<or>
         cached_value s1 ! axis = None \<and> evaluate_mlp E feats axis train s1 = Inr v \<and>
           s' = s1\<lparr>cached_value := (cached_value s1)[axis := Some v]\<rparr>"
proof (cases "if model s = None then init_model E s else Inr s")
  case (Inl e)
  then show ?thesis using assms by (simp add: evaluate_def)
next
  case (Inr s1)
  then have ev: "(case py_nth (cached_value s1) axis of
        Inl e \<Rightarrow> Inl e
      | Inr None \<Rightarrow>
          (case evaluate_mlp E feats axis train s1 of
             Inl e \<Rightarrow> Inl e
           | Inr v \<Rightarrow> Inr (v, s1\<lparr>cached_value := (cached_value s1)[axis := Some v]\<rparr>))
      | Inr (Some v) \<Rightarrow> Inr (v, s1)) = Inr (v, s')"
    using assms by (simp add: evaluate_def)
  then have ax: "axis < length (cached_value s1)"
    by (cases "axis < length (cached_value s1)") (simp_all add: py_nth_def)
  have "cached_value s1 ! axis = Some v \<and> s' = s1 \<or>
         cached_value s1 ! axis = None \<and> evaluate_mlp E feats axis train s1 = Inr v \<and>
           s' = s1\<lparr>cached_value := (cached_value s1)[axis := Some v]\<rparr>"
  proof (cases "cached_value s1 ! axis")
    case None
    then show ?thesis using ev ax
      by (cases "evaluate_mlp E feats axis train s1") (simp_all add: py_nth_def)
  next
    case (Some w)
    then show ?thesis using ev ax by (simp add: py_nth_def)
  qed
  with Inr ax show ?thesis by (rule that)
qed

lemma evaluate_result:
  assumes "evaluate E feats axis train s = Inr (v, s')"
  shows "model s' \<noteq> None"
    and "axis < length (cached_value s')"
    and "cached_value s' ! axis = Some v"
    and "length (cached_value s') = length (cached_value s)"
    and "losses s' = losses s"
    and "iteration s' = iteration s"
    and "base s' = base s"
    and "minibatch_size s' = minibatch_size s"
    and "trainer s' = (if model s = None then Some (optimizer s) else trainer s)"
    and "i < length (cached_value s) \<Longrightarrow> cached_value s ! i = Some w \<Longrightarrow>
         cached_value s' ! i = Some w"
proof -
  from assms obtain s1 where
    s1: "(if model s = None then init_model E s else Inr s) = Inr s1"
    and ax: "axis < length (cached_value s1)"
    and c: "cached_value s1 ! axis = Some v \<and> s' = s1 \<or>
         cached_value s1 ! axis = None \<and> evaluate_mlp E feats axis train s1 = Inr v \<and>
           s' = s1\<lparr>cached_value := (cached_value s1)[axis := Some v]\<rparr>"
    by (rule evaluate_cases)
  have f: "frame s s1" and m: "model s1 \<noteq> None"
    and t: "trainer s1 = (if model s = None then Some (optimizer s) else trainer s)"
    using s1 init_model_frame[of E s s1] frame_refl[of s] by (auto split: if_splits)
  from c m show "model s' \<noteq> None" by auto
  from c ax show "axis < length (cached_value s')" by auto
  from c ax show "cached_value s' ! axis = Some v" by auto
  from c f show "length (cached_value s') = length (cached_value s)"
    by (auto simp: frame_def)
  from c f show "losses s' = losses s" by (auto simp: frame_def)
  from c f show "iteration s' = iteration s" by (auto simp: frame_def)
  from c f show "base s' = base s" by (auto simp: frame_def)
  from c f show "minibatch_size s' = minibatch_size s" by (auto simp: frame_def)
  from c t show "trainer s' = (if model s = None then Some (optimizer s) else trainer s)"
    by auto
  show "cached_value s' ! i = Some w"
    if "i < length (cached_value s)" "cached_value s ! i = Some w"
  proof (cases "i = axis")
    case True
    then show ?thesis using that c f by (auto simp: frame_def)
  next
    case False
    then show ?thesis using that c f by (auto simp: frame_def)
  qed
qed

lemma evaluate_cached:
  assumes "model s \<noteq> None" and "axis < length (cached_value s)"
    and "cached_value s ! axis = Some v"
  shows "evaluate E feats axis train s = Inr (v, s)"
  using assms by (cases "model s") (simp_all add: evaluate_def py_nth_def)

lemma update_loop_cached:
  assumes "model s \<noteq> None" and "axis < length (cached_value s)"
    and "cached_value s ! axis = Some v" and "\<not> arg_dynet_viz (config E)"
  shows "update_loop E feats axis true k s =
           Inr (s\<lparr>losses := losses s @ replicate k (Pick v true)\<rparr>)"
  using assms
proof (induction k arbitrary: s)
  case 0
  then show ?case by simp
next
  case (Suc k)
  let ?s2 = "s\<lparr>losses := losses s @ [Pick v true]\<rparr>"
  have ev: "evaluate E feats axis True s = Inr (v, s)"
    using Suc.prems by (simp add: evaluate_cached)
  have "update_loop E feats axis true k ?s2 =
          Inr (?s2\<lparr>losses := losses ?s2 @ replicate k (Pick v true)\<rparr>)"
    using Suc.prems Suc.IH[of ?s2] by simp
  then show ?case using ev Suc.prems(4) by (simp add: replicate_app_Cons_same)
qed

lemma update_loop_first:
  assumes "evaluate E feats axis True s = Inr (v, s1)" and "\<not> arg_dynet_viz (config E)"
  shows "update_loop E feats axis true (Suc k) s =
           Inr (s1\<lparr>losses := losses s @ replicate (Suc k) (Pick v true)\<rparr>)"
proof -
  let ?s2 = "s1\<lparr>losses := losses s1 @ [Pick v true]\<rparr>"
  note r = evaluate_result[OF assms(1)]
  have "update_loop E feats axis true k ?s2 =
          Inr (?s2\<lparr>losses := losses ?s2 @ replicate k (Pick v true)\<rparr>)"
    using r(1,2,3) assms(2) update_loop_cached[of ?s2 axis v E feats true k] by simp
  then show ?thesis using assms r(5) by (simp add: replicate_app_Cons_same)
qed

lemma update_loop_error:
  assumes "evaluate E feats axis True s = Inl e"
  shows "update_loop E feats axis true (Suc k) s = Inl e"
  using assms by simp

lemma update_loop_viz:
  assumes "evaluate E feats axis True s = Inr (v, s1)" and "arg_dynet_viz (config E)"
  shows "update_loop E feats axis true (Suc k) s = Inl (SystemExit 0)"
  using assms by simp

lemma py_int_of_int: "py_int (of_int k) = k"
  by (simp add: py_int_def)

lemma py_int_fraction: "py_int (5 / 2) = 2"
  unfolding py_int_def by (simp add: floor_eq_iff)

lemma evaluate_mlp_shape:
  assumes "evaluate_mlp E feats axis train s = Inr v"
  shows "axis < length (num_labels E (base s))"
    and "\<exists>x. v = LogSoftmax x [0..<num_labels E (base s) ! axis]"
proof -
  from assms obtain inputs x where
    "mlp_apply s axis train (Concatenate inputs) [0..<layers s + 1] = Inr x"
    and n: "(case py_nth (num_labels E (base s)) axis of
        Inl e \<Rightarrow> Inl e
      | Inr n \<Rightarrow> Inr (LogSoftmax x [0..<n])) = Inr v"
    unfolding evaluate_mlp_def by (auto split: sum.splits)
  from n show "axis < length (num_labels E (base s))"
    by (cases "axis < length (num_labels E (base s))") (simp_all add: py_nth_def)
  with n show "\<exists>x. v = LogSoftmax x [0..<num_labels E (base s) ! axis]"
    by (auto simp: py_nth_def)
qed

lemma update_cases:
  assumes "update E feats axis pred true importance s = Inr s'"
  obtains b where "super_update E (base s) feats axis pred true importance = Inr b"
    and "nat (py_int importance) = 0 \<and> s' = s\<lparr>base := b\<rparr> \<or>
         (\<exists>v s1. 0 < nat (py_int importance) \<and> \<not> arg_dynet_viz (config E) \<and>
            evaluate E feats axis True (s\<lparr>base := b\<rparr>) = Inr (v, s1) \<and>
            s' = s1\<lparr>losses := losses s @ replicate (nat (py_int importance)) (Pick v true)\<rparr>)"
proof (cases "super_update E (base s) feats axis pred true importance")
  case (Inl e)
  then show ?thesis using assms by (simp add: update_def)
next
  case (Inr b)
  then have loop: "update_loop E feats axis true (nat (py_int importance)) (s\<lparr>base := b\<rparr>) = Inr s'"
    using assms by (simp add: update_def)
  have "nat (py_int importance) = 0 \<and> s' = s\<lparr>base := b\<rparr> \<or>
         (\<exists>v s1. 0 < nat (py_int importance) \<and> \<not> arg_dynet_viz (config E) \<and>
            evaluate E feats axis True (s\<lparr>base := b\<rparr>) = Inr (v, s1) \<and>
            s' = s1\<lparr>losses := losses s @ replicate (nat (py_int importance)) (Pick v true)\<rparr>)"
  proof (cases "nat (py_int importance)")
    case 0
    then show ?thesis using loop by simp
  next
    case (Suc k)
    show ?thesis
    proof (cases "evaluate E feats axis True (s\<lparr>base := b\<rparr>)")
      case (Inl e)
      then show ?thesis using loop Suc update_loop_error[of E feats axis "s\<lparr>base := b\<rparr>" e true k]
        by simp
    next
      case ev: (Inr r)
      obtain v s1 where r: "r = (v, s1)" by (cases r)
      show ?thesis
      proof (cases "arg_dynet_viz (config E)")
        case True
        then show ?thesis
          using loop Suc ev r update_loop_viz[of E feats axis "s\<lparr>base := b\<rparr>" v s1 true k]
          by simp
      next
        case False
        then show ?thesis
          using loop Suc ev r update_loop_first[of E feats axis "s\<lparr>base := b\<rparr>" v s1 true k]
          by simp
      qed
    qed
  qed
  with Inr show ?thesis by (rule that)
qed

lemma update_keeps:
  assumes "update E feats axis pred true importance s = Inr s'"
  shows "iteration s' = iteration s" and "minibatch_size s' = minibatch_size s"
    and "model s \<noteq> None \<Longrightarrow> model s' \<noteq> None"
    and "losses s' \<noteq> losses s \<Longrightarrow> model s' \<noteq> None"
    and "model s = None \<or> trainer s \<noteq> None \<Longrightarrow> model s' = None \<or> trainer s' \<noteq> None"
    and "i < length (cached_value s) \<Longrightarrow> cached_value s ! i = Some w \<Longrightarrow>
         cached_value s' ! i = Some w"
proof -
  from assms obtain b where "super_update E (base s) feats axis pred true importance = Inr b"
    and c: "nat (py_int importance) = 0 \<and> s' = s\<lparr>base := b\<rparr> \<or>
         (\<exists>v s1. 0 < nat (py_int importance) \<and> \<not> arg_dynet_viz (config E) \<and>
            evaluate E feats axis True (s\<lparr>base := b\<rparr>) = Inr (v, s1) \<and>
            s' = s1\<lparr>losses := losses s @ replicate (nat (py_int importance)) (Pick v true)\<rparr>)"
    by (rule update_cases)
  show "iteration s' = iteration s"
    using c evaluate_result(6)[of E feats axis True "s\<lparr>base := b\<rparr>"] by auto
  show "minibatch_size s' = minibatch_size s"
    using c evaluate_result(8)[of E feats axis True "s\<lparr>base := b\<rparr>"] by auto
  show "model s' \<noteq> None" if "model s \<noteq> None"
    using that c evaluate_result(1)[of E feats axis True "s\<lparr>base := b\<rparr>"] by auto
  show "model s' \<noteq> None" if "losses s' \<noteq> losses s"
    using that c evaluate_result(1)[of E feats axis True "s\<lparr>base := b\<rparr>"] by auto
  show "model s' = None \<or> trainer s' \<noteq> None" if "model s = None \<or> trainer s \<noteq> None"
    using that c evaluate_result(9)[of E feats axis True "s\<lparr>base := b\<rparr>"]
    by (auto split: if_splits)
  show "cached_value s' ! i = Some w"
    if "i < length (cached_value s)" "cached_value s ! i = Some w"
    using that c evaluate_result(10)[of E feats axis True "s\<lparr>base := b\<rparr>" _ _ i w] by auto
qed

lemma update_calls_keeps:
  assumes "update_calls E calls s = Inr s'"
  shows "iteration s' = iteration s \<and> minibatch_size s' = minibatch_size s \<and>
         (model s \<noteq> None \<longrightarrow> model s' \<noteq> None) \<and>
         (losses s' \<noteq> losses s \<longrightarrow> model s' \<noteq> None) \<and>
         (model s = None \<or> trainer s \<noteq> None \<longrightarrow> model s' = None \<or> trainer s' \<noteq> None)"
  using assms
proof (induction calls arbitrary: s)
  case Nil
  then show ?case by simp
next
  case (Cons c calls)
  obtain feats axis pred true importance where c: "c = (feats, axis, pred, true, importance)"
    by (cases c)
  from Cons.prems c obtain s1 where
    u: "update E feats axis pred true importance s = Inr s1"
    and r: "update_calls E calls s1 = Inr s'"
    by (auto split: sum.splits)
  note k = update_keeps[OF u]
  note ih = Cons.IH[OF r]
  show ?case
  proof (intro conjI impI)
    show "iteration s' = iteration s" using ih k(1) by simp
    show "minibatch_size s' = minibatch_size s" using ih k(2) by simp
    show "model s' \<noteq> None" if "model s \<noteq> None" using that ih k(3) by blast
    show "model s' \<noteq> None" if "losses s' \<noteq> losses s" using that ih k(4) by metis
    show "model s' = None \<or> trainer s' \<noteq> None" if "model s = None \<or> trainer s \<noteq> None"
      using that ih k(5) by blast
  qed
qed

subsection \<open>Flush and finalize\<close>

lemma emit_fields:
  "cached_value (emit evs s) = cached_value s" "losses (emit evs s) = losses s"
  "iteration (emit evs s) = iteration s" "base (emit evs s) = base s"
  "model (emit evs s) = model s" "trainer (emit evs s) = trainer s"
  "params (emit evs s) = params s" "frame s (emit evs s)"
  by (simp_all add: emit_def frame_def)

lemma flush_result:
  assumes "trainer s = Some t"
  shows "\<exists>s'. flush E s = Inr s' \<and> frame (s\<lparr>losses := [], iteration := iteration s + 1\<rparr>) s' \<and>
           model s' = model s \<and> trainer s' = trainer s \<and> params s' = params s \<and>
           trace s' = trace s @ [Forward (Neg (Esum (losses s)))] @
             (if arg_verbose (config E) > 2
              then [Print (TotalLoss (length (losses s)) (Neg (Esum (losses s))))] else []) @
             [Backward (Neg (Esum (losses s))), TrainerUpdate t, RenewCg]"
  using assms by (simp add: flush_def Let_def init_cg_def emit_def frame_def)

lemma flush_no_trainer: "trainer s = None \<Longrightarrow> flush E s = Inl AttributeError"
  by (simp add: flush_def Let_def init_cg_def emit_def)

lemma finalize_cases:
  assumes "finalize E fe s = Inr s'"
  obtains b s1 s2 evs where "super_finalize E (base s) = Inr b"
    and "model s = None \<and> init_model E (s\<lparr>base := b\<rparr>) = Inr s1 \<or>
         model s \<noteq> None \<and> s1 = s\<lparr>base := b\<rparr>"
    and "losses s1 \<noteq> [] \<and> flush E s1 = Inr s2 \<or> losses s1 = [] \<and> s2 = s1"
    and "s' = emit evs s2"
proof (cases "super_finalize E (base s)")
  case (Inl e)
  then show ?thesis using assms by (simp add: finalize_def)
next
  case b: (Inr b)
  show ?thesis
  proof (cases "if model s = None then init_model E (s\<lparr>base := b\<rparr>) else Inr (s\<lparr>base := b\<rparr>)")
    case (Inl e)
    then show ?thesis using assms b by (simp add: finalize_def)
  next
    case s1: (Inr s1)
    have m: "model s = None \<and> init_model E (s\<lparr>base := b\<rparr>) = Inr s1 \<or>
         model s \<noteq> None \<and> s1 = s\<lparr>base := b\<rparr>"
      using s1 by (cases "model s") simp_all
    show ?thesis
    proof (cases "if losses s1 \<noteq> [] then flush E s1 else Inr s1")
      case (Inl e)
      then show ?thesis using assms b s1 by (simp add: finalize_def)
    next
      case s2: (Inr s2)
      have l: "losses s1 \<noteq> [] \<and> flush E s1 = Inr s2 \<or> losses s1 = [] \<and> s2 = s1"
        using s2 by (cases "losses s1 = []") simp_all
      have e0: "s2 = emit [] s2" by (simp add: emit_def)
      have e2: "emit ys (emit xs s2) = emit (xs @ ys) s2" for xs ys
        by (simp add: emit_def)
      have tr: "trainer (emit xs s2) = trainer s2" for xs
        by (simp add: emit_def)
      have "\<exists>evs. s' = emit evs s2"
      proof (cases "if fe then
              (case trainer s2 of
                 None \<Rightarrow> Inl AttributeError
               | Some t \<Rightarrow> Inr (emit [TrainerUpdateEpoch t] s2))
            else Inr s2")
        case (Inl e)
        then show ?thesis using assms b s1 s2 by (simp add: finalize_def)
      next
        case s3: (Inr s3)
        have a3: "\<exists>evs. s3 = emit evs s2"
        proof (cases fe)
          case True
          then show ?thesis using s3 by (cases "trainer s2") auto
        next
          case False
          then show ?thesis using s3 e0 by auto
        qed
        then obtain xs where xs: "s3 = emit xs s2" by blast
        have fin: "(if arg_verbose (config E) > 1 then
            (case trainer s3 of
               None \<Rightarrow> Inl AttributeError
             | Some t \<Rightarrow> Inr (emit [TrainerStatus t] s3))
          else Inr s3) = Inr s'"
          using assms b s1 s2 s3 by (simp add: finalize_def)
        show ?thesis
        proof (cases "arg_verbose (config E) > 1")
          case True
          then show ?thesis using fin xs e2 by (cases "trainer s3") auto
        next
          case False
          then show ?thesis using fin xs by auto
        qed
      qed
      then obtain evs where "s' = emit evs s2" by blast
      with b m l show ?thesis by (rule that)
    qed
  qed
qed

lemma finalize_result:
  assumes "finalize E fe s = Inr s'"
  shows "cached_value s' = cached_value s"
    and "losses s' = []"
    and "iteration s' = (if losses s = [] then iteration s else iteration s + 1)"
    and "model s' \<noteq> None"
    and "super_finalize E (base s) = Inr (base s')"
    and "frame (s\<lparr>base := base s', losses := [], iteration := iteration s'\<rparr>) s'"
proof -
  from assms obtain b s1 s2 evs where b: "super_finalize E (base s) = Inr b"
    and m: "model s = None \<and> init_model E (s\<lparr>base := b\<rparr>) = Inr s1 \<or>
         model s \<noteq> None \<and> s1 = s\<lparr>base := b\<rparr>"
    and l: "losses s1 \<noteq> [] \<and> flush E s1 = Inr s2 \<or> losses s1 = [] \<and> s2 = s1"
    and e: "s' = emit evs s2"
    by (rule finalize_cases)
  have f1: "frame (s\<lparr>base := b\<rparr>) s1" and m1: "model s1 \<noteq> None"
    using m init_model_frame[of E "s\<lparr>base := b\<rparr>" s1] frame_refl[of s1] by auto
  have f2: "frame (s1\<lparr>losses := [], iteration := (if losses s1 = [] then iteration s1 else iteration s1 + 1)\<rparr>) s2"
    and m2: "model s2 = model s1"
  proof -
    show "frame (s1\<lparr>losses := [], iteration := (if losses s1 = [] then iteration s1 else iteration s1 + 1)\<rparr>) s2"
    proof (cases "losses s1 = []")
      case True
      then show ?thesis using l by (simp add: frame_def)
    next
      case False
      then have fl: "flush E s1 = Inr s2" using l by simp
      then obtain t where "trainer s1 = Some t"
        using flush_no_trainer[of s1 E] by (cases "trainer s1") auto
      from flush_result[OF this, of E] fl False show ?thesis by auto
    qed
    show "model s2 = model s1"
    proof (cases "losses s1 = []")
      case True
      then show ?thesis using l by simp
    next
      case False
      then have fl: "flush E s1 = Inr s2" using l by simp
      then obtain t where "trainer s1 = Some t"
        using flush_no_trainer[of s1 E] by (cases "trainer s1") auto
      from flush_result[OF this, of E] fl show ?thesis by auto
    qed
  qed
  from f1 f2 e show "cached_value s' = cached_value s" by (simp add: frame_def emit_fields)
  from f1 f2 e show "losses s' = []" by (simp add: frame_def emit_fields)
  from f1 f2 e show "iteration s' = (if losses s = [] then iteration s else iteration s + 1)"
    by (simp add: frame_def emit_fields)
  from m1 m2 e show "model s' \<noteq> None" by (simp add: emit_fields)
  from f1 f2 e b show bs: "super_finalize E (base s) = Inr (base s')"
    by (simp add: frame_def emit_fields)
  from f1 f2 e show "frame (s\<lparr>base := base s', losses := [], iteration := iteration s'\<rparr>) s'"
    by (simp add: frame_def emit_def)
qed

lemma finalize_succeeds:
  assumes "super_finalize E (base s) = Inr b" and "model s \<noteq> None" and "trainer s = Some t"
  shows "\<exists>s'. finalize E fe s = Inr s'"
proof -
  obtain m where m: "model s = Some m" using assms(2) by auto
  let ?s1 = "s\<lparr>base := b\<rparr>"
  have t1: "trainer ?s1 = Some t" using assms(3) by simp
  obtain s2 where s2: "(if losses ?s1 \<noteq> [] then flush E ?s1 else Inr ?s1) = Inr s2"
    and t2: "trainer s2 = Some t"
    using flush_result[OF t1, of E] t1 by (cases "losses s = []") auto
  show ?thesis
    unfolding finalize_def using assms(1) m s2 t2
    by (cases fe; cases "arg_verbose (config E) > 1") (simp_all add: emit_fields)
qed

lemma finished_item_flushes:
  assumes "super_finalize E (base s) = Inr b" and "model s \<noteq> None" and "trainer s \<noteq> None"
    and "minibatch_size s \<le> int (length (losses s))"
  shows "\<exists>s'. finished_item E train s = Inr s' \<and> losses s' = [] \<and>
           iteration s' = (if losses s = [] then iteration s else iteration s + 1)"
proof -
  obtain t where t: "trainer s = Some t" using assms(3) by auto
  obtain s1 where s1: "finalize E False s = Inr s1"
    using finalize_succeeds[OF assms(1,2) t] by blast
  note r = finalize_result[OF s1]
  have "finished_item E train s = Inr (finished_step E train s1)"
    using s1 assms(4) by (simp add: finished_item_def)
  then show ?thesis using r(2,3) by (simp add: finished_step_def)
qed

lemma score_keeps_cached:
  assumes "score E feats axis s = Inr (r, s')" and "i < length (cached_value s)"
    and "cached_value s ! i = Some w"
  shows "cached_value s' ! i = Some w"
proof (cases "super_score E (base s) feats axis")
  case (Inl e)
  then show ?thesis using assms(1) by (simp add: score_def)
next
  case (Inr b)
  show ?thesis
  proof (cases "iteration s > 0")
    case True
    show ?thesis
    proof (cases "evaluate E feats axis False (s\<lparr>base := b\<rparr>)")
      case (Inl e)
      then show ?thesis using assms(1) Inr True by (simp add: score_def)
    next
      case ev: (Inr vs)
      obtain v s2 where vs: "vs = (v, s2)" by (cases vs)
      have "s' = s2"
        using assms(1) Inr True ev vs
        by (cases "py_nth (num_labels E (base s2)) axis") (simp_all add: score_def)
      then show ?thesis
        using evaluate_result(10)[of E feats axis False "s\<lparr>base := b\<rparr>" v s2 i w] ev vs assms(2,3)
        by simp
    qed
  next
    case False
    let ?s2 = "if arg_verbose (config E) > 2 then emit [Print NoUpdatesYet] (s\<lparr>base := b\<rparr>)
               else s\<lparr>base := b\<rparr>"
    have c: "cached_value ?s2 = cached_value s" by (simp add: emit_def)
    have "s' = ?s2"
      using assms(1) Inr False
      by (cases "py_nth (num_labels E (base ?s2)) axis") (simp_all add: score_def Let_def)
    then show ?thesis using c assms(3) by simp
  qed
qed

lemma save_model_cases:
  assumes "save_model E s = Inr (d, s')"
  obtains s1 extra evs where "finalize E False s = Inr s1"
    and "save_extra E (base s1) = Inr extra"
    and "d = dict_update (descriptor s1) extra" and "s' = emit evs s1"
proof (cases "finalize E False s")
  case (Inl e)
  then show ?thesis using assms by (simp add: save_model_def)
next
  case s1: (Inr s1)
  show ?thesis
  proof (cases "save_extra E (base s1)")
    case (Inl e)
    then show ?thesis using assms s1 by (simp add: save_model_def)
  next
    case ex: (Inr extra)
    let ?f = "filename E (base s1) @ ''.model''"
    have e2: "emit ys (emit xs s1) = emit (xs @ ys) s1" for xs ys
      by (simp add: emit_def)
    have e1: "params (emit xs s1) = params s1" "model (emit xs s1) = model s1" for xs
      by (simp_all add: emit_def)
    have "d = dict_update (descriptor s1) extra \<and> (\<exists>evs. s' = emit evs s1)"
    proof (cases "os_remove E ?f")
      case None
      then show ?thesis using assms s1 ex
        unfolding save_model_def
        by (cases "model s1"; cases "model_save E ?f (map snd (params s1))")
           (auto simp: Let_def e1 e2 split: error.splits)
    next
      case (Some e)
      then show ?thesis using assms s1 ex
        unfolding save_model_def
        by (cases e; cases "model s1"; cases "model_save E ?f (map snd (params s1))")
           (auto simp: Let_def e1 e2 split: error.splits)
    qed
    then obtain evs where "d = dict_update (descriptor s1) extra" "s' = emit evs s1" by blast
    with s1 ex show ?thesis by (rule that)
  qed
qed

subsection \<open>The concrete classifier, evaluated\<close>

lemma example_init_model: "init_model example_env example_net = Inr example_ready"
  by code_simp

lemma example_evaluate:
  "evaluate example_env example_features 0 True example_net =
     Inr (example_output, example_ready\<lparr>cached_value := [Some example_output]\<rparr>)"
  by code_simp

lemma example_update_once:
  "update example_env example_features 0 1 0 1 example_net = Inr (example_queued 1)"
  by code_simp

lemma example_update_fraction:
  "update example_env example_features 0 1 0 (5 / 2) example_net = Inr (example_queued 2)"
  by code_simp

lemma example_update_calls:
  "update_calls example_env example_calls example_net = Inr (example_queued 2)"
  by code_simp

lemma example_finalize:
  "finalize example_env False (example_queued 2) = Inr example_flushed"
  by code_simp

lemma example_finished_item:
  "finished_item example_env True (example_queued 2) =
     Inr (example_flushed\<lparr>cached_value := [None]\<rparr>)"
  by code_simp

lemma example_update_queued:
  "update example_env example_features 0 1 0 1 (example_queued 2) = Inr (example_queued 3)"
  by code_simp

lemma example_score_queued:
  "score example_env example_features 0 (example_queued 2) = Inr ([0, 0], example_queued 2)"
  by code_simp

lemma example_flush:
  "flush example_env (example_queued 1) =
     Inr (example_ready
            \<lparr> cached_value := [Some example_output], iteration := 1,
              trace := [RenewCg, Forward (Neg (Esum [Pick example_output 0])),
                        Backward (Neg (Esum [Pick example_output 0])),
                        TrainerUpdate SimpleSGDTrainer, RenewCg] \<rparr>)"
  by code_simp

lemma example_finalize_flushed:
  "finalize example_env_rejected False (example_queued 2) = Inr example_flushed"
  by code_simp

lemma example_save_model:
  "save_model example_env (example_queued 2) = Inr (example_descriptor, example_saved)"
  by code_simp

lemma example_indexed_init:
  "init_model example_env example_indexed_net = Inr example_indexed_ready"
  by code_simp

lemma example_indexed_scan_short:
  "scan_features example_env example_indexed_ready (sorted_items [(''b'', [1, 2])]) [] =
     Inr ([], [1, 2])"
  by code_simp

lemma example_indexed_maxima:
  "max_num_of_active_indexed_types example_indexed_params = 3"
  "max_num_of_indexed_types example_indexed_params = 5"
  by code_simp+

lemma example_mixed_init:
  "init_model example_env example_mixed_net = Inr example_mixed_ready"
  by code_simp

lemma example_mixed_generate:
  "generate_inputs example_env example_mixed_ready example_mixed_features =
     Inr example_mixed_inputs"
  by code_simp

lemma example_mixed_valid:
  "valid_features example_mixed_params example_mixed_features"
  by code_simp

lemma example_mixed_same_map:
  "map_of example_mixed_features_reordered = map_of example_mixed_features"
  by (rule ext) (simp add: example_mixed_features_def example_mixed_features_reordered_def)

lemma example_new_network:
  "new_network example_env [2] example_params [5] = Inr example_net"
  by code_simp

lemma example_evaluate_queued:
  "evaluate example_env example_features 0 True (example_queued 1) =
     Inr (example_output, example_queued 1)"
  by code_simp

lemma example_reachable: "reachable example_env (example_queued 1)"
  using reachable.constructed[OF example_new_network]
        reachable.after_update[of example_env example_net example_features 0 1 0 1
          "example_queued 1"] example_update_once
  by simp

lemma example_finalize_disk_failure:
  "finalize example_env_disk_failure False (example_queued 2) = Inr example_flushed"
  by code_simp

subsection \<open>Scoring before any optimizer step\<close>

text \<open>
  Claim C3. While the iteration counter is zero, \<^verbatim>\<open>score(features, axis)\<close> returns the
  all-zero vector whose length is the current label count of the axis, whatever the feature
  dictionary holds: the network is not evaluated and the only change to the object is what
  the base class hook did (and the notice printed at verbosity above 2). The hook of the
  base class is taken to return normally, and the axis to be one the classifier has.
\<close>

theorem score_before_training:
  assumes "iteration s = 0" and "super_score E (base s) feats axis = Inr b"
    and "axis < length (num_labels E b)"
  shows "score E feats axis s =
           Inr (replicate (num_labels E b ! axis) 0,
                if arg_verbose (config E) > 2 then emit [Print NoUpdatesYet] (s\<lparr>base := b\<rparr>)
                else s\<lparr>base := b\<rparr>)"
  using assms by (simp add: score_def py_nth_def Let_def emit_def)

theorem score_before_training_witness:
  "iteration example_net = 0 \<and>
   super_score example_env (base example_net) example_features 0 = Inr [2] \<and>
   score example_env example_features 0 example_net = Inr ([0, 0], example_net)"
  using score_before_training[of example_net example_env example_features 0 "[2]"]
  by (simp add: example_env_def example_net_def example_args_def numeral_2_eq_2)

subsection \<open>Shapes of the per-axis layers\<close>

text \<open>
  Claim C1, as the code has it. With at least one hidden layer configured
  (\<^verbatim>\<open>layers >= 1\<close>), model initialisation allocates for every axis a weight and a bias for
  each layer index \<^verbatim>\<open>0 .. layers\<close> and for no index above. Layer \<open>i\<close> takes the total input
  width if \<open>i = 0\<close>, the layer width if \<open>0 < i < layers\<close> and the output width
  \<^verbatim>\<open>output_dim\<close> if \<open>i = layers\<close>; it produces the layer width if \<open>i + 1 < layers\<close>, the output
  width if \<open>i + 1 = layers\<close> and the maximum label count of the axis if \<open>i = layers\<close>. So
  the last hidden layer has the output width, not the layer width, and the final layer
  maps the output width to the maximum label count.
\<close>

theorem init_model_layer_shapes:
  assumes "init_model E s = Inr s'" and "axis < length (num_labels E (base s))"
    and "1 \<le> layers s" and "i \<le> layers s"
  shows "\<exists>d nW nb. input_dim s' = Some d \<and>
           map_of (params s') (Tuple ''W'' i axis) =
             Some (Parameters nW
                     [if Suc i < layers s then layer_dim s
                      else if Suc i = layers s then output_dim s
                      else max_num_labels s ! axis,
                      if i = 0 then d else if i < layers s then layer_dim s else output_dim s]
                     (init s)) \<and>
           map_of (params s') (Tuple ''b'' i axis) =
             Some (Parameters nb
                     [if Suc i < layers s then layer_dim s
                      else if Suc i = layers s then output_dim s
                      else max_num_labels s ! axis]
                     (init s)) \<and>
           (\<forall>j r. layers s < j \<longrightarrow>
              map_of (params s') (Tuple r j axis) = map_of (params s) (Tuple r j axis))"
proof -
  from init_model_layer_params[OF assms(1,2,4)] obtain d nW nb where
    "input_dim s' = Some d"
    "map_of (params s') (Tuple ''W'' i axis) =
       Some (Parameters nW [out_dim s (max_num_labels s ! axis) ! i, in_dim s d ! i] (init s))"
    "map_of (params s') (Tuple ''b'' i axis) =
       Some (Parameters nb [out_dim s (max_num_labels s ! axis) ! i] (init s))"
    by blast
  moreover have "out_dim s (max_num_labels s ! axis) ! i =
      (if Suc i < layers s then layer_dim s
       else if Suc i = layers s then output_dim s else max_num_labels s ! axis)"
    using out_dim_nth[OF assms(4)] assms(3) by simp
  moreover have "in_dim s d ! i =
      (if i = 0 then d else if i < layers s then layer_dim s else output_dim s)"
    using in_dim_nth[OF assms(4)] by simp
  ultimately show ?thesis
    using init_model_params_above[OF assms(1)] by auto
qed

theorem init_model_layer_shapes_witness:
  "init_model example_env example_net = Inr example_ready \<and>
   (\<exists>d nW nb. input_dim example_ready = Some d \<and>
      map_of (params example_ready) (Tuple ''W'' 1 0) = Some (Parameters nW [5, 3] GlorotInitializer) \<and>
      map_of (params example_ready) (Tuple ''b'' 1 0) = Some (Parameters nb [5] GlorotInitializer) \<and>
      (\<forall>j r. 1 < j \<longrightarrow> map_of (params example_ready) (Tuple r j 0) = None))"
  using init_model_layer_shapes[of example_env example_net example_ready 0 1] example_init_model
  by (simp add: example_env_def example_net_def)

text \<open>
  The claim as stated has the first layer map the input width to the layer width unless
  \<^verbatim>\<open>layers == 0\<close>. With \<^verbatim>\<open>layers = 1\<close>, \<^verbatim>\<open>layer_dim = 4\<close> and \<^verbatim>\<open>output_dim = 3\<close> the first
  layer of the concrete classifier maps its input width 2 to 3.
\<close>

theorem first_layer_width_counterexample:
  "layers example_net = 1 \<and> layer_dim example_net = 4 \<and> output_dim example_net = 3 \<and>
   init_model example_env example_net = Inr example_ready \<and>
   map_of (params example_ready) (Tuple ''W'' 0 0) =
     Some (Parameters 0 [3, 2] GlorotInitializer) \<and>
   input_dim example_ready = Some 2"
  using example_init_model by (simp add: example_net_def example_ready_def)

text \<open>
  Without hidden layers (\<^verbatim>\<open>layers = 0\<close>) the single layer of an axis maps the input width
  to \<^verbatim>\<open>output_dim\<close>; the maximum label count of the axis is not used.
\<close>

lemma init_model_no_hidden_layer:
  assumes "init_model E s = Inr s'" and "axis < length (num_labels E (base s))"
    and "layers s = 0"
  shows "\<exists>d nW. input_dim s' = Some d \<and>
           map_of (params s') (Tuple ''W'' 0 axis) =
             Some (Parameters nW [output_dim s, d] (init s))"
  using init_model_layer_params[OF assms(1,2), of 0] assms(3)
    in_dim_nth[of 0 s] out_dim_nth[of 0 s] by auto

subsection \<open>How many loss terms one update queues\<close>

lemma py_int_of_nat: "nat (py_int (of_nat k)) = k"
  by (simp add: py_int_def)

lemma py_int_below_one: "importance < 1 \<Longrightarrow> nat (py_int importance) = 0"
  by (auto simp: py_int_def nat_eq_iff2 floor_le_iff ceiling_le_iff)

text \<open>
  Claim C5, as the code has it. With the graph dump \<^verbatim>\<open>dynet_viz\<close> off, when the hook of the
  base class and the evaluation of the network return normally, one call to \<^verbatim>\<open>update\<close>
  appends exactly \<^verbatim>\<open>int(importance)\<close> copies of the loss term to the queue: the importance
  truncated towards zero, and no term at all for an importance below 1. The term is the
  same node each time, because the evaluation is cached.
\<close>

theorem update_appends_truncated_importance:
  assumes "super_update E (base s) feats axis pred true importance = Inr b"
    and "\<not> arg_dynet_viz (config E)"
    and "evaluate E feats axis True (s\<lparr>base := b\<rparr>) = Inr (v, s1)"
  shows "\<exists>s'. update E feats axis pred true importance s = Inr s' \<and>
           losses s' = losses s @ replicate (nat (py_int importance)) (Pick v true)"
proof (cases "nat (py_int importance)")
  case 0
  then show ?thesis using assms(1) by (simp add: update_def)
next
  case (Suc k)
  then show ?thesis
    using assms(1) update_loop_first[OF assms(3) assms(2), of true k]
    by (simp add: update_def)
qed


theorem update_appends_truncated_importance_witness:
  "\<not> arg_dynet_viz (config example_env) \<and> nat (py_int (5 / 2)) = 2 \<and>
   (\<exists>s'. update example_env example_features 0 1 0 (5 / 2) example_net = Inr s' \<and>
         losses s' = [Pick example_output 0, Pick example_output 0])"
proof -
  have b: "super_update example_env (base example_net) example_features 0 1 0 (5 / 2) = Inr [2]"
    by (simp add: example_env_def example_net_def)
  have v: "\<not> arg_dynet_viz (config example_env)"
    by (simp add: example_env_def example_args_def)
  have n: "example_net\<lparr>base := [2]\<rparr> = example_net"
    by (simp add: example_net_def)
  have l: "losses example_net = []" by (simp add: example_net_def)
  have ev: "evaluate example_env example_features 0 True (example_net\<lparr>base := [2]\<rparr>) =
              Inr (example_output, example_ready\<lparr>cached_value := [Some example_output]\<rparr>)"
    using example_evaluate n by simp
  from update_appends_truncated_importance[OF b v ev] l py_int_fraction v
  show ?thesis by (simp add: numeral_2_eq_2)
qed


text \<open>
  The claim as stated asks for exactly \<^verbatim>\<open>importance\<close> repetitions for every importance value.
  An importance of 5/2 queues two terms.
\<close>

theorem update_fractional_importance_counterexample:
  "map_sum id (length \<circ> losses)
     (update example_env example_features 0 1 0 (5 / 2) example_net) = Inr 2 \<and>
   rat_of_nat 2 \<noteq> 5 / 2"
  using example_update_fraction by (simp add: example_queued_def)

subsection \<open>The sign of the queued loss terms\<close>

lemma evaluate_fresh_is_log_softmax:
  assumes "evaluate E feats axis train s = Inr (v, s1)"
    and "axis < length (cached_value s)" and "cached_value s ! axis = None"
  shows "\<exists>x. v = LogSoftmax x [0..<num_labels E (base s) ! axis]"
proof -
  from assms(1) obtain s0 where
    i: "(if model s = None then init_model E s else Inr s) = Inr s0"
    and c: "cached_value s0 ! axis = Some v \<and> s1 = s0 \<or>
         cached_value s0 ! axis = None \<and> evaluate_mlp E feats axis train s0 = Inr v \<and>
           s1 = s0\<lparr>cached_value := (cached_value s0)[axis := Some v]\<rparr>"
    by (rule evaluate_cases)
  have f: "frame s s0"
    using i init_model_frame(1)[of E s s0] frame_refl[of s] by (cases "model s") auto
  then have "cached_value s0 ! axis = None" and b: "base s0 = base s"
    using assms(3) by (simp_all add: frame_def)
  with c have "evaluate_mlp E feats axis train s0 = Inr v" by auto
  from evaluate_mlp_shape(2)[OF this] b show ?thesis by simp
qed

lemma is_log_softmax_iff: "is_log_softmax v \<longleftrightarrow> (\<exists>x r. v = LogSoftmax x r)"
  by (cases v) simp_all

lemma log_softmax_cache_nth:
  "log_softmax_cache s \<Longrightarrow> i < length (cached_value s) \<Longrightarrow> cached_value s ! i = Some v \<Longrightarrow>
   is_log_softmax v"
  unfolding log_softmax_cache_def by (metis nth_mem option.simps(5))

lemma log_softmax_cache_cong:
  "cached_value s' = cached_value s \<Longrightarrow> log_softmax_cache s' = log_softmax_cache s"
  by (simp add: log_softmax_cache_def)

lemma log_softmax_cache_update:
  assumes "log_softmax_cache s" and "is_log_softmax v"
  shows "log_softmax_cache (s\<lparr>cached_value := (cached_value s)[i := Some v]\<rparr>)"
  using assms unfolding log_softmax_cache_def
  by (auto dest!: set_update_subset_insert[THEN subsetD] split: option.splits)

lemma evaluate_log_softmax:
  assumes "evaluate E feats axis train s = Inr (v, s')" and "log_softmax_cache s"
  shows "is_log_softmax v" and "log_softmax_cache s'"
proof -
  from assms(1) obtain s0 where
    i: "(if model s = None then init_model E s else Inr s) = Inr s0"
    and ax: "axis < length (cached_value s0)"
    and c: "cached_value s0 ! axis = Some v \<and> s' = s0 \<or>
         cached_value s0 ! axis = None \<and> evaluate_mlp E feats axis train s0 = Inr v \<and>
           s' = s0\<lparr>cached_value := (cached_value s0)[axis := Some v]\<rparr>"
    by (rule evaluate_cases)
  have f: "frame s s0"
    using i init_model_frame(1)[of E s s0] frame_refl[of s] by (cases "model s") auto
  then have inv0: "log_softmax_cache s0"
    using assms(2) log_softmax_cache_cong[of s0 s] by (simp add: frame_def)
  from c show v: "is_log_softmax v"
  proof
    assume "cached_value s0 ! axis = Some v \<and> s' = s0"
    then show ?thesis using inv0 ax log_softmax_cache_nth by blast
  next
    assume "cached_value s0 ! axis = None \<and> evaluate_mlp E feats axis train s0 = Inr v \<and>
           s' = s0\<lparr>cached_value := (cached_value s0)[axis := Some v]\<rparr>"
    then have "evaluate_mlp E feats axis train s0 = Inr v" by simp
    from evaluate_mlp_shape(2)[OF this] show ?thesis by (auto simp: is_log_softmax_iff)
  qed
  from c show "log_softmax_cache s'"
    using inv0 v log_softmax_cache_update[of s0 v axis] by auto
qed

lemma score_log_softmax:
  assumes "score E feats axis s = Inr (r, s')" and "log_softmax_cache s"
  shows "log_softmax_cache s'"
proof (cases "super_score E (base s) feats axis")
  case (Inl e)
  then show ?thesis using assms(1) by (simp add: score_def)
next
  case (Inr b)
  have invb: "log_softmax_cache (s\<lparr>base := b\<rparr>)"
    using assms(2) by (simp add: log_softmax_cache_def)
  show ?thesis
  proof (cases "iteration s > 0")
    case True
    show ?thesis
    proof (cases "evaluate E feats axis False (s\<lparr>base := b\<rparr>)")
      case (Inl e)
      then show ?thesis using assms(1) Inr True by (simp add: score_def)
    next
      case ev: (Inr vs)
      obtain v s2 where vs: "vs = (v, s2)" by (cases vs)
      have "s' = s2"
        using assms(1) Inr True ev vs
        by (cases "py_nth (num_labels E (base s2)) axis") (simp_all add: score_def)
      then show ?thesis
        using evaluate_log_softmax(2)[of E feats axis False "s\<lparr>base := b\<rparr>" v s2] ev vs invb
        by simp
    qed
  next
    case False
    let ?s2 = "if arg_verbose (config E) > 2 then emit [Print NoUpdatesYet] (s\<lparr>base := b\<rparr>)
               else s\<lparr>base := b\<rparr>"
    have c: "cached_value ?s2 = cached_value s" by (simp add: emit_def)
    have "s' = ?s2"
      using assms(1) Inr False
      by (cases "py_nth (num_labels E (base ?s2)) axis") (simp_all add: score_def Let_def)
    then show ?thesis using c assms(2) log_softmax_cache_cong by metis
  qed
qed

lemma update_log_softmax:
  assumes "update E feats axis pred true importance s = Inr s'" and "log_softmax_cache s"
  shows "log_softmax_cache s'"
proof -
  from assms(1) obtain b where
    c: "nat (py_int importance) = 0 \<and> s' = s\<lparr>base := b\<rparr> \<or>
         (\<exists>v s1. 0 < nat (py_int importance) \<and> \<not> arg_dynet_viz (config E) \<and>
            evaluate E feats axis True (s\<lparr>base := b\<rparr>) = Inr (v, s1) \<and>
            s' = s1\<lparr>losses := losses s @ replicate (nat (py_int importance)) (Pick v true)\<rparr>)"
    by (rule update_cases)
  have invb: "log_softmax_cache (s\<lparr>base := b\<rparr>)"
    using assms(2) by (simp add: log_softmax_cache_def)
  from c show ?thesis
  proof
    assume "nat (py_int importance) = 0 \<and> s' = s\<lparr>base := b\<rparr>"
    then show ?thesis using invb by simp
  next
    assume "\<exists>v s1. 0 < nat (py_int importance) \<and> \<not> arg_dynet_viz (config E) \<and>
            evaluate E feats axis True (s\<lparr>base := b\<rparr>) = Inr (v, s1) \<and>
            s' = s1\<lparr>losses := losses s @ replicate (nat (py_int importance)) (Pick v true)\<rparr>"
    then obtain v s1 where ev: "evaluate E feats axis True (s\<lparr>base := b\<rparr>) = Inr (v, s1)"
      and s': "s' = s1\<lparr>losses := losses s @ replicate (nat (py_int importance)) (Pick v true)\<rparr>"
      by blast
    from evaluate_log_softmax(2)[OF ev invb] s' show ?thesis
      by (simp add: log_softmax_cache_def)
  qed
qed

lemma reachable_log_softmax_cache: "reachable E s \<Longrightarrow> log_softmax_cache s"
proof (induction rule: reachable.induct)
  case (constructed b ips mx s)
  then show ?case
    by (auto simp: new_network_def log_softmax_cache_def split: option.splits)
next
  case (after_init_model s s')
  then show ?case
    using init_model_frame(1)[of E s s'] log_softmax_cache_cong[of s' s]
    by (simp add: frame_def)
next
  case (after_evaluate s feats axis train v s')
  then show ?case using evaluate_log_softmax(2) by blast
next
  case (after_score s feats axis r s')
  then show ?case using score_log_softmax by blast
next
  case (after_update s feats axis pred true importance s')
  then show ?case using update_log_softmax by blast
next
  case (after_finished_step s train)
  then show ?case by (simp add: finished_step_def log_softmax_cache_def)
next
  case (after_finished_item s train s')
  then obtain s1 where "s' = finished_step E train s1"
    unfolding finished_item_def by (auto split: sum.splits)
  then show ?case by (simp add: finished_step_def log_softmax_cache_def)
next
  case (after_finalize s finished_epoch s')
  then show ?case
    using finalize_result(1)[of E finished_epoch s s'] log_softmax_cache_cong[of s' s] by simp
next
  case (after_save_model s d s')
  from after_save_model(2) obtain sf extra evs where f: "finalize E False s = Inr sf"
    and e: "s' = emit evs sf"
    by (rule save_model_cases)
  have "cached_value s' = cached_value s"
    using finalize_result(1)[OF f] e by (simp add: emit_fields)
  then show ?case using after_save_model(3) log_softmax_cache_cong by metis
qed

text \<open>
  Claim C2, as the code has it. On every object the class can produce, the node that
  \<^verbatim>\<open>update\<close> queues in each repetition is \<^verbatim>\<open>pick(v, true)\<close> with \<open>v\<close> a log-softmax node, whether
  \<open>v\<close> is taken from the score cache or built by this call (then over the current labels of
  the axis): the log-probability of the true label, with no negation. The negation is
  applied by the flush, once, to the sum of the queue: the loss it evaluates and
  differentiates is \<^verbatim>\<open>-esum(losses)\<close>.
\<close>

theorem update_queues_log_probability:
  assumes "reachable E s"
    and "super_update E (base s) feats axis pred true importance = Inr b"
    and "\<not> arg_dynet_viz (config E)"
    and "evaluate E feats axis True (s\<lparr>base := b\<rparr>) = Inr (v, s1)"
    and "trainer s2 = Some t"
  shows "(\<exists>x r. v = LogSoftmax x r) \<and>
         (axis < length (cached_value s) \<and> cached_value s ! axis = None \<longrightarrow>
            (\<exists>x. v = LogSoftmax x [0..<num_labels E b ! axis])) \<and>
         (\<exists>s'. update E feats axis pred true importance s = Inr s' \<and>
               losses s' = losses s @ replicate (nat (py_int importance)) (Pick v true)) \<and>
         (\<exists>s3. flush E s2 = Inr s3 \<and>
               trace s3 = trace s2 @ [Forward (Neg (Esum (losses s2)))] @
                 (if arg_verbose (config E) > 2
                  then [Print (TotalLoss (length (losses s2)) (Neg (Esum (losses s2))))]
                  else []) @
                 [Backward (Neg (Esum (losses s2))), TrainerUpdate t, RenewCg])"
proof (intro conjI impI)
  have inv: "log_softmax_cache (s\<lparr>base := b\<rparr>)"
    using reachable_log_softmax_cache[OF assms(1)] by (simp add: log_softmax_cache_def)
  from evaluate_log_softmax(1)[OF assms(4) inv]
  show "\<exists>x r. v = LogSoftmax x r" by (simp add: is_log_softmax_iff)
  show "\<exists>x. v = LogSoftmax x [0..<num_labels E b ! axis]"
    if "axis < length (cached_value s) \<and> cached_value s ! axis = None"
    using evaluate_fresh_is_log_softmax[OF assms(4)] that by simp
  show "\<exists>s'. update E feats axis pred true importance s = Inr s' \<and>
          losses s' = losses s @ replicate (nat (py_int importance)) (Pick v true)"
  proof (cases "nat (py_int importance)")
    case 0
    then show ?thesis using assms(2) by (simp add: update_def)
  next
    case (Suc k)
    then show ?thesis
      using assms(2) update_loop_first[OF assms(4) assms(3), of true k]
      by (simp add: update_def)
  qed
  show "\<exists>s3. flush E s2 = Inr s3 \<and>
          trace s3 = trace s2 @ [Forward (Neg (Esum (losses s2)))] @
            (if arg_verbose (config E) > 2
             then [Print (TotalLoss (length (losses s2)) (Neg (Esum (losses s2))))]
             else []) @
            [Backward (Neg (Esum (losses s2))), TrainerUpdate t, RenewCg]"
    using flush_result[OF assms(5), of E] by blast
qed

theorem update_queues_log_probability_witness:
  "reachable example_env (example_queued 1) \<and>
   cached_value (example_queued 1) ! 0 = Some example_output \<and>
   (\<exists>x r. example_output = LogSoftmax x r) \<and>
   (\<exists>s'. update example_env example_features 0 1 0 1 (example_queued 1) = Inr s' \<and>
         losses s' = losses (example_queued 1) @
           replicate (nat (py_int 1)) (Pick example_output 0)) \<and>
   (\<exists>s3. flush example_env (example_queued 2) = Inr s3 \<and>
         trace s3 = trace (example_queued 2) @
           [Forward (Neg (Esum (losses (example_queued 2))))] @
           (if arg_verbose (config example_env) > 2
            then [Print (TotalLoss (length (losses (example_queued 2)))
                          (Neg (Esum (losses (example_queued 2)))))]
            else []) @
           [Backward (Neg (Esum (losses (example_queued 2)))),
            TrainerUpdate SimpleSGDTrainer, RenewCg]) \<and>
   reachable example_env example_net \<and>
   cached_value example_net ! 0 = None \<and>
   (\<exists>x. example_output = LogSoftmax x [0..<num_labels example_env [2] ! 0])"
proof -
  have v: "\<not> arg_dynet_viz (config example_env)"
    by (simp add: example_env_def example_args_def)
  have t: "trainer (example_queued 2) = Some SimpleSGDTrainer"
    by (simp add: example_queued_def example_ready_def)
  have b: "super_update example_env (base (example_queued 1)) example_features 0 1 0 1 = Inr [2]"
    by (simp add: example_env_def example_queued_def example_ready_def example_net_def)
  have n: "(example_queued 1)\<lparr>base := [2]\<rparr> = example_queued 1"
    by (simp add: example_queued_def example_ready_def example_net_def)
  have ev: "evaluate example_env example_features 0 True ((example_queued 1)\<lparr>base := [2]\<rparr>) =
              Inr (example_output, example_queued 1)"
    using example_evaluate_queued n by simp
  have c: "cached_value (example_queued 1) ! 0 = Some example_output"
    by (simp add: example_queued_def)
  have r0: "reachable example_env example_net"
    using example_new_network by (rule reachable.constructed)
  have b0: "super_update example_env (base example_net) example_features 0 1 0 1 = Inr [2]"
    by (simp add: example_env_def example_net_def)
  have n0: "example_net\<lparr>base := [2]\<rparr> = example_net"
    by (simp add: example_net_def)
  have ev0: "evaluate example_env example_features 0 True (example_net\<lparr>base := [2]\<rparr>) =
              Inr (example_output, example_ready\<lparr>cached_value := [Some example_output]\<rparr>)"
    using example_evaluate n0 by simp
  have c0: "0 < length (cached_value example_net)" "cached_value example_net ! 0 = None"
    by (simp_all add: example_net_def)
  from update_queues_log_probability[OF r0 b0 v ev0 t] c0
  have fresh: "\<exists>x. example_output = LogSoftmax x [0..<num_labels example_env [2] ! 0]"
    by blast
  from update_queues_log_probability[OF example_reachable b v ev t] example_reachable c r0 c0(2)
    fresh
  show ?thesis by blast
qed

text \<open>
  The claim as stated has the queue hold negative log-probabilities and the flush add no
  negation. One update of the concrete classifier queues the un-negated node, and the flush
  of that queue evaluates its negated sum.
\<close>

theorem update_queues_unnegated_counterexample:
  "map_sum id losses (update example_env example_features 0 1 0 1 example_net) =
     Inr [Pick (LogSoftmax example_hidden [0, 1]) 0] \<and>
   Pick (LogSoftmax example_hidden [0, 1]) 0 \<noteq> Neg (Pick (LogSoftmax example_hidden [0, 1]) 0) \<and>
   map_sum id trace (flush example_env (example_queued 1)) =
     Inr [RenewCg, Forward (Neg (Esum [Pick (LogSoftmax example_hidden [0, 1]) 0])),
          Backward (Neg (Esum [Pick (LogSoftmax example_hidden [0, 1]) 0])),
          TrainerUpdate SimpleSGDTrainer, RenewCg]"
  using example_update_once example_flush
  by (simp add: example_queued_def example_output_def)

subsection \<open>The minibatch trigger\<close>

text \<open>
  Claim C4. Start from an object with an empty loss queue (whose trainer exists if its
  engine model does, as \<^verbatim>\<open>init_model\<close> leaves it). After a sequence of \<^verbatim>\<open>update\<close> calls that
  all return and together leave exactly \<^verbatim>\<open>minibatch_size\<close> terms in the queue, where the
  configured minibatch size is at least 1, one call to \<^verbatim>\<open>finished_item(train=True)\<close> returns,
  the iteration counter is one more than at the start, and the queue is empty. The hook
  \<^verbatim>\<open>Classifier.finalize\<close> is taken to return normally.
\<close>

theorem minibatch_trigger:
  assumes "losses s0 = []" and "model s0 = None \<or> trainer s0 \<noteq> None"
    and "update_calls E calls s0 = Inr s"
    and "int (length (losses s)) = minibatch_size s" and "1 \<le> minibatch_size s"
    and "super_finalize E (base s) = Inr b"
  shows "\<exists>s'. finished_item E True s = Inr s' \<and> iteration s' = iteration s0 + 1 \<and>
           losses s' = []"
proof -
  note k = update_calls_keeps[OF assms(3)]
  have ne: "losses s \<noteq> []" using assms(4,5) by auto
  then have m: "model s \<noteq> None" using k assms(1) by auto
  then have t: "trainer s \<noteq> None" using k assms(2) by auto
  from finished_item_flushes[OF assms(6) m t, of True] assms(4) ne k
  show ?thesis by auto
qed

theorem minibatch_trigger_witness:
  "losses example_net = [] \<and>
   update_calls example_env example_calls example_net = Inr (example_queued 2) \<and>
   int (length (losses (example_queued 2))) = minibatch_size (example_queued 2) \<and>
   (\<exists>s'. finished_item example_env True (example_queued 2) = Inr s' \<and>
         iteration s' = iteration example_net + 1 \<and> losses s' = [])"
  using minibatch_trigger[of example_net example_env example_calls "example_queued 2" "[2]"]
        example_update_calls
  by (simp add: example_net_def example_queued_def example_ready_def example_env_def)

subsection \<open>Who clears the score cache\<close>

text \<open>
  Claim C10. \<^verbatim>\<open>finalize\<close> returns with the per-axis score cache exactly as it found it, for
  either value of \<^verbatim>\<open>finished_epoch\<close> and also when it flushed and renewed the computation
  graph. \<^verbatim>\<open>finished_step\<close> leaves every entry empty, and so does \<^verbatim>\<open>finished_item\<close>, which ends
  with it. No other method empties an entry: \<^verbatim>\<open>update\<close> and \<^verbatim>\<open>score\<close> keep every cached output
  (they may fill an empty one), and \<^verbatim>\<open>save_model\<close> keeps the whole cache.
\<close>

theorem finalize_keeps_score_cache:
  "(finalize E fe s = Inr s1 \<longrightarrow> cached_value s1 = cached_value s) \<and>
   cached_value (finished_step E train s) = replicate (length (num_labels E (base s))) None \<and>
   (finished_item E train s = Inr s2 \<longrightarrow>
      cached_value s2 = replicate (length (num_labels E (base s2))) None) \<and>
   (update E feats axis pred true importance s = Inr s3 \<and>
      i < length (cached_value s) \<and> cached_value s ! i = Some w \<longrightarrow>
      cached_value s3 ! i = Some w) \<and>
   (score E feats axis s = Inr (r, s4) \<and>
      i < length (cached_value s) \<and> cached_value s ! i = Some w \<longrightarrow>
      cached_value s4 ! i = Some w) \<and>
   (save_model E s = Inr (d, s5) \<longrightarrow> cached_value s5 = cached_value s)"
proof (intro conjI impI)
  show "cached_value s1 = cached_value s" if "finalize E fe s = Inr s1"
    using that by (rule finalize_result(1))
  show "cached_value (finished_step E train s) = replicate (length (num_labels E (base s))) None"
    by (simp add: finished_step_def)
  show "cached_value s2 = replicate (length (num_labels E (base s2))) None"
    if "finished_item E train s = Inr s2"
  proof -
    from that obtain s' where "s2 = finished_step E train s'"
      unfolding finished_item_def by (auto split: sum.splits)
    then show ?thesis by (simp add: finished_step_def)
  qed
  show "cached_value s3 ! i = Some w"
    if "update E feats axis pred true importance s = Inr s3 \<and>
        i < length (cached_value s) \<and> cached_value s ! i = Some w"
    using that update_keeps(6)[of E feats axis pred true importance s s3 i w] by simp
  show "cached_value s4 ! i = Some w"
    if "score E feats axis s = Inr (r, s4) \<and>
        i < length (cached_value s) \<and> cached_value s ! i = Some w"
    using that score_keeps_cached[of E feats axis s r s4 i w] by simp
  show "cached_value s5 = cached_value s" if "save_model E s = Inr (d, s5)"
  proof -
    from that obtain sf extra evs where "finalize E False s = Inr sf" and "s5 = emit evs sf"
      by (rule save_model_cases)
    then show ?thesis using finalize_result(1)[of E False s sf] by (simp add: emit_fields)
  qed
qed

theorem finalize_keeps_score_cache_witness:
  "finalize example_env False (example_queued 2) = Inr example_flushed \<and>
   cached_value (example_queued 2) = [Some example_output] \<and>
   cached_value example_flushed = [Some example_output] \<and>
   last (trace example_flushed) = RenewCg \<and>
   cached_value (finished_step example_env True (example_queued 2)) = [None] \<and>
   finished_item example_env True (example_queued 2) =
     Inr (example_flushed\<lparr>cached_value := [None]\<rparr>) \<and>
   update example_env example_features 0 1 0 1 (example_queued 2) = Inr (example_queued 3) \<and>
   cached_value (example_queued 3) ! 0 = Some example_output \<and>
   score example_env example_features 0 (example_queued 2) = Inr ([0, 0], example_queued 2) \<and>
   save_model example_env (example_queued 2) = Inr (example_descriptor, example_saved) \<and>
   cached_value example_saved = [Some example_output]"
  using finalize_keeps_score_cache[of example_env False "example_queued 2" example_flushed
          True "example_flushed\<lparr>cached_value := [None]\<rparr>" example_features 0 1 0 1
          "example_queued 3" 0 example_output "[0, 0]" "example_queued 2"
          example_descriptor example_saved]
        example_finalize example_finished_item example_update_queued example_score_queued
        example_save_model
  by (simp add: example_queued_def example_flushed_def example_ready_def example_net_def
        example_env_def)

subsection \<open>Saving\<close>

text \<open>
  Claim C9, as the code has it. \<^verbatim>\<open>save_model\<close> first runs \<^verbatim>\<open>finalize\<close>, so the queue is flushed
  and the iteration counter in the descriptor already counts that flush. With the hooks of
  the base class returning, the descriptor holds the feature-parameter specs, the parameter
  keys in table order, the layer count, the layer width, the activation, initializer and
  optimizer names and the iteration counter, updated with the extra entries of
  \<^verbatim>\<open>save_extra\<close>. When removing the old artifact returns or raises \<^verbatim>\<open>OSError\<close>, the descriptor
  is returned both when the engine saved the tensors and when the engine's save raised
  \<^verbatim>\<open>ValueError\<close>, which is reported by a message and goes no further. Every other exception
  of the engine's save, and every exception of the removal other than \<^verbatim>\<open>OSError\<close>, is raised
  to the caller, and no descriptor is returned.
\<close>

theorem save_model_descriptor:
  assumes "finalize E False s = Inr s1" and "save_extra E (base s1) = Inr extra"
  shows "(os_remove E (filename E (base s1) @ ''.model'') = None \<or>
          os_remove E (filename E (base s1) @ ''.model'') = Some OSError \<longrightarrow>
            (model_save E (filename E (base s1) @ ''.model'') (map snd (params s1)) = None \<or>
             (\<exists>msg. model_save E (filename E (base s1) @ ''.model'') (map snd (params s1)) =
                      Some (ValueError msg)) \<longrightarrow>
               (\<exists>s'. save_model E s =
                  Inr (dict_update
                         [(''input_params'', DInputParams (input_params s)),
                          (''param_keys'', DKeys (map fst (params s1))),
                          (''layers'', DNat (layers s)),
                          (''layer_dim'', DNat (layer_dim s)),
                          (''activation'', DStr (activation_str s)),
                          (''init'', DStr (init_str s)),
                          (''optimizer'', DStr (optimizer_str s)),
                          (''iteration'',
                           DNat (if losses s = [] then iteration s else iteration s + 1))]
                         extra, s') \<and>
                  losses s' = [] \<and>
                  (\<forall>msg. model_save E (filename E (base s1) @ ''.model'')
                            (map snd (params s1)) = Some (ValueError msg) \<longrightarrow>
                         last (trace s') = Print (FailedSaving msg)))) \<and>
            (\<forall>e. model_save E (filename E (base s1) @ ''.model'') (map snd (params s1)) =
                   Some e \<and> (\<forall>msg. e \<noteq> ValueError msg) \<longrightarrow>
                 save_model E s = Inl e)) \<and>
         (\<forall>e. os_remove E (filename E (base s1) @ ''.model'') = Some e \<and> e \<noteq> OSError \<longrightarrow>
              save_model E s = Inl e)"
proof -
  note r = finalize_result[OF assms(1)]
  from r(4) obtain m where m: "model s1 = Some m" by auto
  have d: "descriptor s1 =
          [(''input_params'', DInputParams (input_params s)),
           (''param_keys'', DKeys (map fst (params s1))),
           (''layers'', DNat (layers s)),
           (''layer_dim'', DNat (layer_dim s)),
           (''activation'', DStr (activation_str s)),
           (''init'', DStr (init_str s)),
           (''optimizer'', DStr (optimizer_str s)),
           (''iteration'', DNat (if losses s = [] then iteration s else iteration s + 1))]"
    using r(3,6) by (simp add: descriptor_def frame_def)
  let ?f = "filename E (base s1) @ ''.model''"
  let ?ps = "map snd (params s1)"
  have other_remove: "save_model E s = Inl e" if "os_remove E ?f = Some e" "e \<noteq> OSError" for e
    using that assms unfolding save_model_def by (cases e) (simp_all add: Let_def)
  have removed: "\<exists>s2. (case os_remove E ?f of
              None \<Rightarrow> Inr (emit [Print (RemovedExisting ?f)] s1)
            | Some OSError \<Rightarrow> Inr s1
            | Some e \<Rightarrow> Inl e) = Inr s2 \<and>
          params s2 = params s1 \<and> model s2 = model s1 \<and> losses s2 = losses s1"
    if "os_remove E ?f = None \<or> os_remove E ?f = Some OSError"
    using that by (auto simp: emit_def)
  have saved: "\<exists>s'. save_model E s = Inr (dict_update (descriptor s1) extra, s') \<and>
            losses s' = [] \<and>
            (\<forall>msg. model_save E ?f ?ps = Some (ValueError msg) \<longrightarrow>
               last (trace s') = Print (FailedSaving msg))"
    if rm: "os_remove E ?f = None \<or> os_remove E ?f = Some OSError"
      and sv: "model_save E ?f ?ps = None \<or> (\<exists>msg. model_save E ?f ?ps = Some (ValueError msg))"
  proof -
    from removed[OF rm] obtain s2 where s2: "(case os_remove E ?f of
              None \<Rightarrow> Inr (emit [Print (RemovedExisting ?f)] s1)
            | Some OSError \<Rightarrow> Inr s1
            | Some e \<Rightarrow> Inl e) = Inr s2"
      and f2: "params s2 = params s1" "model s2 = model s1" "losses s2 = losses s1"
      by blast
    let ?s3 = "emit [Print (SavingModel ?f)] s2"
    have f3: "params ?s3 = params s1" "model ?s3 = Some m" "losses ?s3 = []"
      using f2 m r(2) by (simp_all add: emit_def)
    from sv show ?thesis
    proof
      assume "model_save E ?f ?ps = None"
      then show ?thesis
        unfolding save_model_def using assms s2 f3 by (simp add: Let_def emit_def)
    next
      assume "\<exists>msg. model_save E ?f ?ps = Some (ValueError msg)"
      then obtain msg where "model_save E ?f ?ps = Some (ValueError msg)" by blast
      then show ?thesis
        unfolding save_model_def using assms s2 f3 by (simp add: Let_def emit_def)
    qed
  qed
  have other_save: "save_model E s = Inl e"
    if rm: "os_remove E ?f = None \<or> os_remove E ?f = Some OSError"
      and sv: "model_save E ?f ?ps = Some e" and nv: "\<forall>msg. e \<noteq> ValueError msg" for e
  proof -
    from removed[OF rm] obtain s2 where s2: "(case os_remove E ?f of
              None \<Rightarrow> Inr (emit [Print (RemovedExisting ?f)] s1)
            | Some OSError \<Rightarrow> Inr s1
            | Some e \<Rightarrow> Inl e) = Inr s2"
      and f2: "params s2 = params s1" "model s2 = model s1" "losses s2 = losses s1"
      by blast
    let ?s3 = "emit [Print (SavingModel ?f)] s2"
    have f3: "params ?s3 = params s1" "model ?s3 = Some m"
      using f2 m by (simp_all add: emit_def)
    show ?thesis
      unfolding save_model_def using assms s2 f3 sv nv
      by (cases e) (simp_all add: Let_def)
  qed
  show ?thesis
    using saved other_save other_remove unfolding d by blast
qed

theorem save_model_descriptor_witness:
  "(\<exists>s'. save_model example_env_rejected (example_queued 2) = Inr (example_descriptor, s') \<and>
        losses s' = [] \<and> last (trace s') = Print (FailedSaving ''cannot write'')) \<and>
   save_model example_env_disk_failure (example_queued 2) = Inl OSError"
proof -
  have a: "\<exists>s'. save_model example_env_rejected (example_queued 2) = Inr (example_descriptor, s') \<and>
        losses s' = [] \<and> last (trace s') = Print (FailedSaving ''cannot write'')"
    using save_model_descriptor[of example_env_rejected "example_queued 2" example_flushed "[]"]
          example_finalize_flushed
    by (simp add: example_env_rejected_def example_env_def example_flushed_def
          example_queued_def example_ready_def example_net_def example_descriptor_def)
  have b: "save_model example_env_disk_failure (example_queued 2) = Inl OSError"
    using save_model_descriptor[of example_env_disk_failure "example_queued 2" example_flushed
            "[]"] example_finalize_disk_failure
    by (simp add: example_env_disk_failure_def example_env_def)
  from a b show ?thesis by simp
qed

text \<open>
  The claim as stated covers every failure to write the artifact. Only \<^verbatim>\<open>ValueError\<close> is
  caught: when the engine's save raises \<^verbatim>\<open>OSError\<close>, \<^verbatim>\<open>save_model\<close> raises it to the caller and
  returns no descriptor.
\<close>

theorem save_model_other_failure_counterexample:
  "model_save example_env_disk_failure ''nn.model'' (map snd (params example_flushed)) =
     Some OSError \<and>
   save_model example_env_disk_failure (example_queued 2) = Inl OSError"
  by code_simp

subsection \<open>The count of buffered indexed ids\<close>

lemma generate_inputs_indexed_raises:
  assumes "scan_features E s (sorted_items feats) [] = Inr (ys, indices)"
    and "indices \<noteq> []"
  shows "\<exists>e. generate_inputs E s feats = Inl e"
  using assms by (cases "indexed_num s") (simp_all add: generate_inputs_def index_input_def)

text \<open>
  Claim C6, as the code has it. Model initialisation sets the indexed-slot count to the
  largest declared \<^verbatim>\<open>num\<close> over the feature types that are flagged indexed and have a
  non-zero dimension (a maximum, not a sum; a type of dimension 0 is skipped). When the scan
  of the sorted feature types has buffered some ids, which are the values of the indexed
  lookup types in suffix order, and their number differs from that count, input assembly
  raises the assertion error that names both numbers.
\<close>

theorem indexed_count_mismatch_is_fatal:
  assumes "init_model E s0 = Inr s1" and "indexed_num s = indexed_num s1"
    and "scan_features E s (sorted_items feats) [] = Inr (ys, indices)"
    and "indices \<noteq> []"
    and "length indices \<noteq> max_num_of_active_indexed_types (input_params s0)"
  shows "indexed_num s = Some (max_num_of_active_indexed_types (input_params s0)) \<and>
         indices = buffered_ids s (sorted_items feats) \<and>
         generate_inputs E s feats =
           Inl (AssertionError ''Wrong number of index features: %d != %d''
                  [length indices, max_num_of_active_indexed_types (input_params s0)])"
proof -
  have n: "indexed_num s = Some (max_num_of_active_indexed_types (input_params s0))"
    using init_model_indexed_num[OF assms(1)] assms(2) by simp
  from scan_features_buffer[OF assms(3)] generate_inputs_buffered[OF assms(3,4) n] assms(5) n
  show ?thesis by simp
qed

theorem indexed_count_mismatch_is_fatal_witness:
  "init_model example_env example_indexed_net = Inr example_indexed_ready \<and>
   indexed_num example_indexed_ready = Some 3 \<and>
   generate_inputs example_env example_indexed_ready [(''b'', [1, 2])] =
     Inl (AssertionError ''Wrong number of index features: %d != %d'' [2, 3])"
  using indexed_count_mismatch_is_fatal[of example_env example_indexed_net
          example_indexed_ready example_indexed_ready "[(''b'', [1, 2])]" "[]" "[1, 2]"]
        example_indexed_init example_indexed_scan_short example_indexed_maxima(1)
  by (simp add: example_indexed_net_def)

text \<open>
  The claim as stated takes the maximum over all indexed feature types. With an indexed type
  of dimension 0 that declares 5 slots beside one of dimension 1 that declares 3, the count
  is 3, and five buffered ids are a fatal mismatch.
\<close>

theorem indexed_slot_count_counterexample:
  "init_model example_env example_indexed_net = Inr example_indexed_ready \<and>
   input_params example_indexed_net = example_indexed_params \<and>
   max_num_of_indexed_types example_indexed_params = 5 \<and>
   indexed_num example_indexed_ready = Some 3 \<and>
   generate_inputs example_env example_indexed_ready [(''b'', [1, 2, 3, 4, 5])] =
     Inl (AssertionError ''Wrong number of index features: %d != %d'' [5, 3])"
  by code_simp

subsection \<open>Width and order independence of the assembled input\<close>

text \<open>
  Claim C8, as the code has it. Take an architecture whose feature types are keyed
  distinctly, in which no indexed type has a non-zero dimension and every numeric type has
  dimension 1 (its declared width \<^verbatim>\<open>num * dim\<close> is then its declared number of values). For
  every feature dictionary that fits the declared types, input assembly after model
  initialisation returns sub-vectors whose concatenation has exactly the declared total
  input width. Any dictionary with the same entries in another insertion order gives the
  same sub-vectors, because the items are sorted by suffix first.
\<close>

theorem assembled_input_width:
  assumes init: "init_model E s0 = Inr s"
    and keys: "distinct (map fst (input_params s0))"
    and no_indexed:
      "\<forall>kp \<in> set (input_params s0). param_indexed (snd kp) \<longrightarrow> param_dim (snd kp) = 0"
    and numeric_unit:
      "\<forall>kp \<in> set (input_params s0). param_numeric (snd kp) \<longrightarrow> param_dim (snd kp) = 1"
    and valid: "valid_features (input_params s0) feats"
    and keys': "distinct (map fst feats')" and same: "map_of feats' = map_of feats"
  shows "\<exists>ys d. generate_inputs E s feats = Inr ys \<and> input_dim s = Some d \<and>
           expr_dim (Concatenate ys) = d \<and> generate_inputs E s feats' = Inr ys"
proof -
  let ?ps = "input_params s0"
  let ?g = "\<lambda>k. feature_width (the (map_of ?ps k))"
  note inv = init_model_assembly[OF init keys]
  have df: "distinct (map fst feats)" using valid by (simp add: valid_features_def)
  have ds: "distinct (map fst (sorted_items feats))"
    using df by (simp add: sorted_items_def distinct_map inj_on_def)
  have pre: "\<forall>kv \<in> set (sorted_items feats).
             \<exists>p. map_of (input_params s) (fst kv) = Some p \<and>
               (param_indexed p \<longrightarrow> param_dim p = 0) \<and>
               (param_numeric p \<longrightarrow> length (snd kv) = feature_width p) \<and>
               (\<not> param_numeric p \<and> param_dim p \<noteq> 0 \<longrightarrow> length (snd kv) = param_num p) \<and>
               (\<not> param_numeric p \<and> param_dim p \<noteq> 0 \<longrightarrow>
                  (\<exists>n r u a. map_of (params s) (Suffix (fst kv)) =
                     Some (LookupParameters n r (param_dim p) u a)) \<and>
                  map_of (empty_values s) (fst kv) = Some (zero_input (param_dim p)))"
  proof
    fix kv assume "kv \<in> set (sorted_items feats)"
    then have kv: "kv \<in> set feats" by (simp add: sorted_items_def)
    then have c: "case map_of ?ps (fst kv) of
          None \<Rightarrow> False
        | Some p \<Rightarrow>
            param_numeric p \<or> param_dim p \<noteq> 0 \<longrightarrow> length (snd kv) = param_num p"
      using valid unfolding valid_features_def by blast
    then obtain p where p: "map_of ?ps (fst kv) = Some p"
      by (cases "map_of ?ps (fst kv)") simp_all
    have len: "param_numeric p \<or> param_dim p \<noteq> 0 \<longrightarrow> length (snd kv) = param_num p"
      using c p by simp
    from p have mem: "(fst kv, p) \<in> set ?ps" by (rule map_of_SomeD)
    then have ni: "param_indexed p \<longrightarrow> param_dim p = 0" using no_indexed by auto
    have nu: "param_numeric p \<longrightarrow> param_dim p = 1" using mem numeric_unit by auto
    have l1: "param_numeric p \<longrightarrow> length (snd kv) = feature_width p"
    proof
      assume n: "param_numeric p"
      then have "param_dim p = 1" using nu by simp
      moreover from this have "\<not> param_indexed p" using ni by auto
      ultimately show "length (snd kv) = feature_width p"
        using len n by (simp add: feature_width_def)
    qed
    have l2: "\<not> param_numeric p \<and> param_dim p \<noteq> 0 \<longrightarrow> length (snd kv) = param_num p"
      using len by simp
    have tab: "\<not> param_numeric p \<and> param_dim p \<noteq> 0 \<longrightarrow>
                  (\<exists>n r u a. map_of (params s) (Suffix (fst kv)) =
                     Some (LookupParameters n r (param_dim p) u a)) \<and>
                  map_of (empty_values s) (fst kv) = Some (zero_input (param_dim p))"
      using inv(3)[OF mem] by blast
    show "\<exists>p. map_of (input_params s) (fst kv) = Some p \<and>
               (param_indexed p \<longrightarrow> param_dim p = 0) \<and>
               (param_numeric p \<longrightarrow> length (snd kv) = feature_width p) \<and>
               (\<not> param_numeric p \<and> param_dim p \<noteq> 0 \<longrightarrow> length (snd kv) = param_num p) \<and>
               (\<not> param_numeric p \<and> param_dim p \<noteq> 0 \<longrightarrow>
                  (\<exists>n r u a. map_of (params s) (Suffix (fst kv)) =
                     Some (LookupParameters n r (param_dim p) u a)) \<and>
                  map_of (empty_values s) (fst kv) = Some (zero_input (param_dim p)))"
      using p ni l1 l2 tab inv(1) by auto
  qed
  from scan_features_width[OF pre, of E "[]"] obtain ys where
    sc: "scan_features E s (sorted_items feats) [] = Inr (ys, [])"
    and sm: "sum_list (map expr_dim ys) =
             sum_list (map (\<lambda>kv. ?g (fst kv)) (sorted_items feats))"
    using inv(1) by auto
  have gen: "generate_inputs E s feats = Inr ys"
    using sc by (simp add: generate_inputs_def)
  have "sum_list (map expr_dim ys) = sum ?g (fst ` set feats)"
    using sm sum_list_by_key[OF ds, of ?g] by (simp add: sorted_items_def)
  also have "\<dots> = sum ?g (fst ` set ?ps)"
    using keys valid by (rule valid_features_sum)
  also have "\<dots> = sum_list (map (feature_width \<circ> snd) (sorted_items ?ps))"
    using declared_width_as_sum[OF keys] by simp
  finally have w: "expr_dim (Concatenate ys) =
      sum_list (map (feature_width \<circ> snd) (sorted_items ?ps))"
    by simp
  have "sorted_items feats' = sorted_items feats"
    using keys' df same by (rule sorted_items_eq)
  then have "generate_inputs E s feats' = generate_inputs E s feats"
    by (simp add: generate_inputs_def)
  with gen w inv(2)[OF no_indexed] show ?thesis by simp
qed

theorem assembled_input_width_witness:
  "init_model example_env example_mixed_net = Inr example_mixed_ready \<and>
   valid_features example_mixed_params example_mixed_features \<and>
   generate_inputs example_env example_mixed_ready example_mixed_features =
     Inr example_mixed_inputs \<and>
   generate_inputs example_env example_mixed_ready example_mixed_features_reordered =
     Inr example_mixed_inputs \<and>
   input_dim example_mixed_ready = Some 8 \<and>
   expr_dim (Concatenate example_mixed_inputs) = 8"
proof -
  have ip: "input_params example_mixed_net = example_mixed_params"
    by (simp add: example_mixed_net_def)
  have d: "distinct (map fst (input_params example_mixed_net))"
    unfolding ip by (simp add: example_mixed_params_def)
  have ni: "\<forall>kp \<in> set (input_params example_mixed_net).
              param_indexed (snd kp) \<longrightarrow> param_dim (snd kp) = 0"
    unfolding ip by (simp add: example_mixed_params_def)
  have nu: "\<forall>kp \<in> set (input_params example_mixed_net).
              param_numeric (snd kp) \<longrightarrow> param_dim (snd kp) = 1"
    unfolding ip by (simp add: example_mixed_params_def)
  have v: "valid_features (input_params example_mixed_net) example_mixed_features"
    unfolding ip by (rule example_mixed_valid)
  have d': "distinct (map fst example_mixed_features_reordered)"
    by (simp add: example_mixed_features_reordered_def)
  from assembled_input_width[OF example_mixed_init d ni nu v d' example_mixed_same_map]
  obtain ys n where "generate_inputs example_env example_mixed_ready example_mixed_features = Inr ys"
    and "input_dim example_mixed_ready = Some n" and "expr_dim (Concatenate ys) = n"
    and "generate_inputs example_env example_mixed_ready example_mixed_features_reordered = Inr ys"
    by blast
  moreover have "input_dim example_mixed_ready = Some 8"
    by (simp add: example_mixed_ready_def)
  ultimately show ?thesis
    using example_mixed_init example_mixed_valid example_mixed_generate by simp
qed

text \<open>
  The claim as stated covers every architecture. With an indexed feature type of non-zero
  dimension the declared width counts its slots, but a dictionary that fits the declared
  types and supplies exactly the declared number of ids is not assembled: the indexed lookup
  is a hook that raises.
\<close>

theorem indexed_features_never_assemble_counterexample:
  "init_model example_env example_indexed_net = Inr example_indexed_ready \<and>
   valid_features example_indexed_params [(''b'', [7, 8, 9])] \<and>
   input_dim example_indexed_ready = Some 3 \<and>
   indexed_num example_indexed_ready = Some 3 \<and>
   generate_inputs example_env example_indexed_ready [(''b'', [7, 8, 9])] =
     Inl (ValueError ''Input representations not initialized, cannot evaluate indexed features'')"
  by code_simp

text \<open>
  A numeric type is declared with width \<^verbatim>\<open>num * dim\<close> and only if its dimension is not 0,
  while assembly takes its values as they come. With a numeric type of dimension 0 that
  declares three values, a dictionary that fits the declared types is assembled to width 5
  against a declared width of 2.
\<close>

lemma numeric_dimension_width_mismatch:
  "init_model example_env example_numeric_net = Inr example_numeric_ready \<and>
   valid_features example_numeric_params example_numeric_features \<and>
   input_dim example_numeric_ready = Some 2 \<and>
   generate_inputs example_env example_numeric_ready example_numeric_features =
     Inr [InputVector [1, 0, 1], InputVector [1 / 10, - (1 / 5)]] \<and>
   expr_dim (Concatenate [InputVector [1, 0, 1], InputVector [1 / 10, - (1 / 5)]]) = 5"
  by code_simp

end
